theory Spec2Isabelle
  imports Main
begin

section \<open>Cache backends\<close>

text \<open>
  Times are the millisecond readings of \<^verbatim>\<open>Date.now()\<close>; every operation takes the
  reading of the clock during the call as its argument \<open>now\<close>. TTLs are whole seconds.
  Numbers are modelled as unbounded integers (the double-precision range of exact integers
  is not reached by clock readings and TTLs).
\<close>

datatype error =
    RedisNotConnected
  | RedisCommandError string
  | AllCachesFailedSet string "string list"
  | NoCacheImplementation
  | TournamentNotFound string
  | GraphQLError "string list"
  | AuthenticationError
  | ServerError nat
  | ApiError string "nat option"
  | Thrown string

subsection \<open>InMemoryCacheService\<close>

record 'v CacheEntry =
  data :: 'v
  expiresAt :: int
  createdAt :: int

record CacheMetadata =
  meta_key :: string
  meta_ttl :: int
  meta_createdAt :: int
  meta_expiresAt :: int

text \<open>
  The map of the service, from keys to entries. The values stored are taken to be
  objects (never null), as the tournaments the router stores are.
\<close>

type_synonym 'v mem_cache = "string \<rightharpoonup> 'v CacheEntry"

definition mem_get :: "'v mem_cache \<Rightarrow> string \<Rightarrow> int \<Rightarrow> 'v option \<times> 'v mem_cache" where
  "mem_get cache key now =
     (case cache key of
        None \<Rightarrow> (None, cache)
      | Some entry \<Rightarrow>
          if expiresAt entry \<le> now then (None, cache(key := None))
          else (Some (data entry), cache))"

definition mem_set :: "'v mem_cache \<Rightarrow> string \<Rightarrow> 'v \<Rightarrow> int \<Rightarrow> int \<Rightarrow> 'v mem_cache" where
  "mem_set cache key val ttlSeconds now =
     cache(key \<mapsto> \<lparr> data = val, expiresAt = now + ttlSeconds * 1000, createdAt = now \<rparr>)"

definition mem_del :: "'v mem_cache \<Rightarrow> string \<Rightarrow> 'v mem_cache" where
  "mem_del cache key = cache(key := None)"

definition mem_exists :: "'v mem_cache \<Rightarrow> string \<Rightarrow> int \<Rightarrow> bool \<times> 'v mem_cache" where
  "mem_exists cache key now =
     (case cache key of
        None \<Rightarrow> (False, cache)
      | Some entry \<Rightarrow>
          if expiresAt entry \<le> now then (False, cache(key := None))
          else (True, cache))"

definition mem_getMetadata ::
  "'v mem_cache \<Rightarrow> string \<Rightarrow> int \<Rightarrow> CacheMetadata option \<times> 'v mem_cache" where
  "mem_getMetadata cache key now =
     (case cache key of
        None \<Rightarrow> (None, cache)
      | Some entry \<Rightarrow>
          if expiresAt entry \<le> now then (None, cache(key := None))
          else
            (let ttlMs = expiresAt entry - now
             in (Some \<lparr> meta_key = key, meta_ttl = ttlMs div 1000,
                        meta_createdAt = createdAt entry,
                        meta_expiresAt = expiresAt entry \<rparr>, cache)))"

definition mem_clear :: "'v mem_cache \<Rightarrow> 'v mem_cache" where
  "mem_clear cache = Map.empty"

definition cleanExpired :: "'v mem_cache \<Rightarrow> int \<Rightarrow> 'v mem_cache" where
  "cleanExpired cache now =
     (\<lambda>key. case cache key of
               None \<Rightarrow> None
             | Some entry \<Rightarrow> if expiresAt entry \<le> now then None else Some entry)"

subsection \<open>RedisCacheService\<close>

text \<open>
  The service holds the flag \<open>connected\<close> and an ioredis client. The server behind the
  client is outside the repository; it is taken as a key-value table with an expiry
  instant per key, and a field \<open>commands_fail\<close> that holds, when the client's commands
  reject, the message they reject with.
  Values are stored as given (serialisation with \<^verbatim>\<open>JSON.stringify\<close> and
  \<^verbatim>\<open>JSON.parse\<close> is taken as the identity). \<^verbatim>\<open>SETEX\<close> rejects a
  non-positive expiry, and \<^verbatim>\<open>TTL\<close> answers the remaining time rounded to the
  nearest second, or a negative number for a missing key.
\<close>

record 'v RedisCacheService =
  connected :: bool
  commands_fail :: "string option"
  db :: "string \<rightharpoonup> ('v \<times> int)"

definition redis_live :: "'v RedisCacheService \<Rightarrow> string \<Rightarrow> int \<Rightarrow> ('v \<times> int) option" where
  "redis_live r key now =
     (case db r key of
        None \<Rightarrow> None
      | Some (v, exp) \<Rightarrow> if exp \<le> now then None else Some (v, exp))"

definition redis_guard :: "'v RedisCacheService \<Rightarrow> error option" where
  "redis_guard r =
     (if \<not> connected r then Some RedisNotConnected
      else (case commands_fail r of
              Some msg \<Rightarrow> Some (RedisCommandError msg)
            | None \<Rightarrow> None))"

definition redis_get :: "'v RedisCacheService \<Rightarrow> string \<Rightarrow> int \<Rightarrow> error + 'v option" where
  "redis_get r key now =
     (case redis_guard r of
        Some e \<Rightarrow> Inl e
      | None \<Rightarrow> Inr (map_option fst (redis_live r key now)))"

definition redis_set ::
  "'v RedisCacheService \<Rightarrow> string \<Rightarrow> 'v \<Rightarrow> int \<Rightarrow> int \<Rightarrow> (error + unit) \<times> 'v RedisCacheService" where
  "redis_set r key val ttlSeconds now =
     (case redis_guard r of
        Some e \<Rightarrow> (Inl e, r)
      | None \<Rightarrow>
          if ttlSeconds \<le> 0
          then (Inl (RedisCommandError ''ERR invalid expire time in 'setex' command''), r)
          else (Inr (), r\<lparr> db := (db r)(key \<mapsto> (val, now + ttlSeconds * 1000)) \<rparr>))"

definition redis_del :: "'v RedisCacheService \<Rightarrow> string \<Rightarrow> (error + unit) \<times> 'v RedisCacheService" where
  "redis_del r key =
     (case redis_guard r of
        Some e \<Rightarrow> (Inl e, r)
      | None \<Rightarrow> (Inr (), r\<lparr> db := (db r)(key := None) \<rparr>))"

definition redis_exists :: "'v RedisCacheService \<Rightarrow> string \<Rightarrow> int \<Rightarrow> error + bool" where
  "redis_exists r key now =
     (case redis_guard r of
        Some e \<Rightarrow> Inl e
      | None \<Rightarrow> Inr (redis_live r key now \<noteq> None))"

definition redis_ttl :: "'v RedisCacheService \<Rightarrow> string \<Rightarrow> int \<Rightarrow> int" where
  "redis_ttl r key now =
     (case redis_live r key now of
        None \<Rightarrow> - 2
      | Some (v, exp) \<Rightarrow> (exp - now + 500) div 1000)"

definition redis_getMetadata ::
  "'v RedisCacheService \<Rightarrow> string \<Rightarrow> int \<Rightarrow> error + CacheMetadata option" where
  "redis_getMetadata r key now =
     (case redis_guard r of
        Some e \<Rightarrow> Inl e
      | None \<Rightarrow>
          (let ttl = redis_ttl r key now in
           if ttl \<le> 0 then Inr None
           else
             (let ttlMs = ttl * 1000
              in Inr (Some \<lparr> meta_key = key, meta_ttl = ttl,
                              meta_createdAt = now - ttlMs,
                              meta_expiresAt = now + ttlMs \<rparr>))))"

subsection \<open>ICacheService and FallbackCacheService\<close>

text \<open>
  The three implementations of the interface. A fallback service owns an ordered list
  of services; the factory builds \<open>[Redis, InMemory]\<close>, and \<^verbatim>\<open>createFallbackCache\<close>
  accepts any list, fallback services included.
\<close>

datatype 'v cache =
    InMemory "'v mem_cache"
  | Redis "'v RedisCacheService"
  | Fallback "'v cache list"

definition newFallbackCacheService :: "'v cache list \<Rightarrow> error + 'v cache" where
  "newFallbackCacheService caches =
     (if length caches = 0 then Inl NoCacheImplementation else Inr (Fallback caches))"

fun cache_get :: "'v cache \<Rightarrow> string \<Rightarrow> int \<Rightarrow> (error + 'v option) \<times> 'v cache"
  and fallback_get :: "'v cache list \<Rightarrow> string \<Rightarrow> int \<Rightarrow> 'v option \<times> 'v cache list"
where
  "cache_get (InMemory m) key now =
     (let (r, m') = mem_get m key now in (Inr r, InMemory m'))"
| "cache_get (Redis r) key now = (redis_get r key now, Redis r)"
| "cache_get (Fallback caches) key now =
     (let (r, caches') = fallback_get caches key now in (Inr r, Fallback caches'))"
| "fallback_get [] key now = (None, [])"
| "fallback_get (c # cs) key now =
     (case cache_get c key now of
        (Inr (Some v), c') \<Rightarrow> (Some v, c' # cs)
      | (Inr None, c') \<Rightarrow> (let (r, cs') = fallback_get cs key now in (r, c' # cs'))
      | (Inl e, c') \<Rightarrow> (let (r, cs') = fallback_get cs key now in (r, c' # cs')))"

fun join :: "string \<Rightarrow> string list \<Rightarrow> string" where
  "join sep [] = []"
| "join sep [x] = x"
| "join sep (x # y # ys) = x @ sep @ join sep (y # ys)"

definition arrow :: string where
  "arrow = [CHR '' '', CHR 0xE2, CHR 0x86, CHR 0x92, CHR '' '']"

fun getName :: "'v cache \<Rightarrow> string" where
  "getName (InMemory m) = ''InMemoryCache''"
| "getName (Redis r) = ''RedisCache''"
| "getName (Fallback caches) = ''FallbackCache('' @ join arrow (map getName caches) @ '')''"

text \<open>
  \<open>set\<close> of the fallback service starts the \<open>set\<close> of every cache and awaits all of
  them, collecting in \<open>errors\<close> the name of each cache whose \<open>set\<close> rejected, with
  its error. Each cache owns its entries, so the order in which the writes complete
  changes only the order of \<open>errors\<close>; it is taken in list order.
\<close>

fun cache_set ::
    "'v cache \<Rightarrow> string \<Rightarrow> 'v \<Rightarrow> int \<Rightarrow> int \<Rightarrow> (error + unit) \<times> 'v cache"
  and fallback_set_all ::
    "'v cache list \<Rightarrow> string \<Rightarrow> 'v \<Rightarrow> int \<Rightarrow> int \<Rightarrow>
       (string \<times> error) list \<times> 'v cache list"
where
  "cache_set (InMemory m) key val ttlSeconds now =
     (Inr (), InMemory (mem_set m key val ttlSeconds now))"
| "cache_set (Redis r) key val ttlSeconds now =
     (let (res, r') = redis_set r key val ttlSeconds now in (res, Redis r'))"
| "cache_set (Fallback caches) key val ttlSeconds now =
     (let (errors, caches') = fallback_set_all caches key val ttlSeconds now
      in if length errors = length caches
         then (Inl (AllCachesFailedSet key (map fst errors)), Fallback caches')
         else (Inr (), Fallback caches'))"
| "fallback_set_all [] key val ttlSeconds now = ([], [])"
| "fallback_set_all (c # cs) key val ttlSeconds now =
     (let (res, c') = cache_set c key val ttlSeconds now;
          (errors, cs') = fallback_set_all cs key val ttlSeconds now
      in (case res of
            Inl e \<Rightarrow> ((getName c, e) # errors, c' # cs')
          | Inr u \<Rightarrow> (errors, c' # cs')))"

fun cache_del :: "'v cache \<Rightarrow> string \<Rightarrow> (error + unit) \<times> 'v cache" where
  "cache_del (InMemory m) key = (Inr (), InMemory (mem_del m key))"
| "cache_del (Redis r) key = (let (res, r') = redis_del r key in (res, Redis r'))"
| "cache_del (Fallback caches) key =
     (Inr (), Fallback (map (\<lambda>c. snd (cache_del c key)) caches))"

fun cache_exists :: "'v cache \<Rightarrow> string \<Rightarrow> int \<Rightarrow> (error + bool) \<times> 'v cache"
  and fallback_exists :: "'v cache list \<Rightarrow> string \<Rightarrow> int \<Rightarrow> bool \<times> 'v cache list"
where
  "cache_exists (InMemory m) key now =
     (let (r, m') = mem_exists m key now in (Inr r, InMemory m'))"
| "cache_exists (Redis r) key now = (redis_exists r key now, Redis r)"
| "cache_exists (Fallback caches) key now =
     (let (r, caches') = fallback_exists caches key now in (Inr r, Fallback caches'))"
| "fallback_exists [] key now = (False, [])"
| "fallback_exists (c # cs) key now =
     (case cache_exists c key now of
        (Inr True, c') \<Rightarrow> (True, c' # cs)
      | (Inr False, c') \<Rightarrow> (let (r, cs') = fallback_exists cs key now in (r, c' # cs'))
      | (Inl e, c') \<Rightarrow> (let (r, cs') = fallback_exists cs key now in (r, c' # cs')))"

fun cache_getMetadata ::
    "'v cache \<Rightarrow> string \<Rightarrow> int \<Rightarrow> (error + CacheMetadata option) \<times> 'v cache"
  and fallback_getMetadata ::
    "'v cache list \<Rightarrow> string \<Rightarrow> int \<Rightarrow> CacheMetadata option \<times> 'v cache list"
where
  "cache_getMetadata (InMemory m) key now =
     (let (r, m') = mem_getMetadata m key now in (Inr r, InMemory m'))"
| "cache_getMetadata (Redis r) key now = (redis_getMetadata r key now, Redis r)"
| "cache_getMetadata (Fallback caches) key now =
     (let (r, caches') = fallback_getMetadata caches key now in (Inr r, Fallback caches'))"
| "fallback_getMetadata [] key now = (None, [])"
| "fallback_getMetadata (c # cs) key now =
     (case cache_getMetadata c key now of
        (Inr (Some md), c') \<Rightarrow> (Some md, c' # cs)
      | (Inr None, c') \<Rightarrow>
          (let (r, cs') = fallback_getMetadata cs key now in (r, c' # cs'))
      | (Inl e, c') \<Rightarrow>
          (let (r, cs') = fallback_getMetadata cs key now in (r, c' # cs')))"

subsection \<open>Sample caches\<close>

text \<open>A disconnected Redis service, and an in-memory cache holding one live entry.\<close>

definition redis_down :: "'v RedisCacheService" where
  "redis_down = \<lparr> connected = False, commands_fail = None, db = Map.empty \<rparr>"

definition mem_with_k :: "nat mem_cache" where
  "mem_with_k = [''k'' \<mapsto> \<lparr> data = 7, expiresAt = 61000, createdAt = 1000 \<rparr>]"

section \<open>Domain types\<close>

text \<open>
  The shared types of the repository. Field names carry a prefix where several
  interfaces use the same name. Timestamps of a match are the numbers start.gg sends
  (documented as Unix timestamps).
\<close>

datatype MatchStatus = pending | in_progress | completed

record Player =
  p_id :: string
  p_tag :: string
  p_name :: "string option"
  p_startggId :: "string option"

record Score =
  player1Score :: int
  player2Score :: int

record Match =
  m_id :: string
  m_round :: string
  player1 :: "Player option"
  player2 :: "Player option"
  winner :: "Player option"
  status :: MatchStatus
  bracketName :: string
  score :: "Score option"
  startedAt :: "int option"
  completedAt :: "int option"
  updatedAt :: "int option"

record Bracket =
  b_id :: nat
  b_name :: string
  matches :: "Match list"

record TournamentEvent =
  e_id :: string
  e_name :: string
  e_slug :: string
  brackets :: "Bracket list"
  participants :: "Player list"
  currentMatches :: "Match list"

record Tournament =
  t_id :: string
  t_name :: string
  t_slug :: string
  t_url :: string
  events :: "TournamentEvent list"

section \<open>TTL calculator\<close>

text \<open>
  \<^verbatim>\<open>calculateDynamicTTL\<close> reads the clock once (\<open>now\<close>, milliseconds) and walks the
  \<open>currentMatches\<close> of every event, raising three flags. A \<open>completedAt\<close> that is absent
  or zero is falsy and skips the recency test.
\<close>

record ttl_flags =
  hasOngoingMatches :: bool
  hasRecentlyCompletedMatches :: bool
  hasAnyPendingMatches :: bool

definition ttl_inspect :: "int \<Rightarrow> Match \<Rightarrow> ttl_flags \<Rightarrow> ttl_flags" where
  "ttl_inspect now match f0 =
     (let f1 = (if status match = in_progress then f0\<lparr> hasOngoingMatches := True \<rparr> else f0);
          f2 = (case completedAt match of
                  None \<Rightarrow> f1
                | Some c \<Rightarrow>
                    if status match = completed \<and> c \<noteq> 0 then
                      (let timeSinceCompletion = now - c
                       in if timeSinceCompletion < 5 * 60 * 1000
                          then f1\<lparr> hasRecentlyCompletedMatches := True \<rparr> else f1)
                    else f1);
          f3 = (if status match = pending then f2\<lparr> hasAnyPendingMatches := True \<rparr> else f2)
      in f3)"

definition calculateDynamicTTL :: "int \<Rightarrow> Tournament \<Rightarrow> int" where
  "calculateDynamicTTL now tournament =
     (let f = fold (\<lambda>event. fold (ttl_inspect now) (currentMatches event)) (events tournament)
                \<lparr> hasOngoingMatches = False, hasRecentlyCompletedMatches = False,
                  hasAnyPendingMatches = False \<rparr>
      in if hasOngoingMatches f then 15
         else if hasRecentlyCompletedMatches f then 120
         else if hasAnyPendingMatches f then 600
         else 1800)"

text \<open>All the matches the calculator looks at.\<close>

definition current_of :: "Tournament \<Rightarrow> Match list" where
  "current_of t = concat (map currentMatches (events t))"

record match_counts =
  ongoing :: nat
  recentlyCompleted :: nat
  pendingCount :: nat
  oldCompleted :: nat

record MatchStateMetadata =
  meta_hasOngoingMatches :: bool
  meta_hasRecentMatches :: bool
  counts :: match_counts

definition count_match :: "int \<Rightarrow> Match \<Rightarrow> match_counts \<Rightarrow> match_counts" where
  "count_match now match c =
     (if status match = in_progress then c\<lparr> ongoing := ongoing c + 1 \<rparr>
      else if status match = completed \<and> (case completedAt match of None \<Rightarrow> False | Some t \<Rightarrow> t \<noteq> 0)
      then (case completedAt match of
              None \<Rightarrow> c
            | Some t \<Rightarrow>
                if now - t < 5 * 60 * 1000 then c\<lparr> recentlyCompleted := recentlyCompleted c + 1 \<rparr>
                else c\<lparr> oldCompleted := oldCompleted c + 1 \<rparr>)
      else if status match = pending then c\<lparr> pendingCount := pendingCount c + 1 \<rparr>
      else c)"

definition getMatchStateMetadata :: "int \<Rightarrow> Tournament \<Rightarrow> MatchStateMetadata" where
  "getMatchStateMetadata now tournament =
     (let c = fold (\<lambda>event. fold (count_match now) (currentMatches event)) (events tournament)
                \<lparr> ongoing = 0, recentlyCompleted = 0, pendingCount = 0, oldCompleted = 0 \<rparr>
      in \<lparr> meta_hasOngoingMatches = (ongoing c > 0),
           meta_hasRecentMatches = (recentlyCompleted c > 0),
           counts = c \<rparr>)"

text \<open>
  A tournament with one event whose \<open>currentMatches\<close> holds one completed match, and a
  clock reading 100 seconds after the match's Unix timestamp \<open>completedAt\<close>.
\<close>

definition completed_match :: Match where
  "completed_match =
     \<lparr> m_id = ''1'', m_round = ''Round 1'', player1 = None, player2 = None, winner = None,
       status = completed, bracketName = ''Pool 1'', score = None, startedAt = None,
       completedAt = Some 1699999900, updatedAt = None \<rparr>"

definition recent_tournament :: Tournament where
  "recent_tournament =
     \<lparr> t_id = ''1'', t_name = ''demo'', t_slug = ''demo'', t_url = '''',
       events = [\<lparr> e_id = ''1'', e_name = ''e'', e_slug = ''e'', brackets = [],
                  participants = [], currentMatches = [completed_match] \<rparr>] \<rparr>"

section \<open>start.gg client: request with retry\<close>












section \<open>start.gg client: tournament assembly\<close>

subsection \<open>Upstream data\<close>

text \<open>
  The JSON values the GraphQL queries return, with the fields the client reads. A field
  that may be null (or missing) is an option. Identifiers are the numbers start.gg
  sends; zero and null are the falsy ones. Array elements are taken to be objects.
\<close>

record RawParticipant =
  rp_id :: "nat option"
  gamerTag :: "string option"
  user_name :: "string option"

record RawEntrant =
  en_id :: "nat option"
  en_name :: "string option"
  en_participants :: "RawParticipant list option"

text \<open>
  The score of a slot is read through \<^verbatim>\<open>standing?.stats?.score?.value\<close>: it is
  undefined (\<open>None\<close>) when a link of the chain is null, null (\<open>Some None\<close>) when the value
  itself is, and a number otherwise.
\<close>

record RawSlot =
  sl_entrant :: "RawEntrant option"
  score_value :: "int option option"

record RawGame =
  g_winnerId :: "nat option"

record RawSet =
  rs_id :: "nat option"
  fullRoundText :: "string option"
  rs_round :: "int option"
  rs_state :: "int option"
  rs_startedAt :: "int option"
  rs_completedAt :: "int option"
  rs_updatedAt :: "int option"
  slots :: "RawSlot list option"
  games :: "RawGame list option"
  rs_winnerId :: "nat option"

record RawPhaseGroup =
  pg_id :: nat
  displayIdentifier :: "string option"
  phase_name :: "string option"

record RawEvent =
  ev_id :: "nat option"
  ev_name :: "string option"
  ev_slug :: "string option"
  entrants_nodes :: "RawEntrant list option"

record RawTournament =
  rt_id :: "nat option"
  rt_name :: "string option"
  rt_slug :: "string option"
  rt_url :: "string option"
  rt_events :: "RawEvent list option"

datatype gql_request =
    TournamentQuery string
  | PhaseGroupsQuery string string
  | PhaseGroupSetsQuery nat nat

text \<open>
  The upstream as the method \<^verbatim>\<open>query\<close> presents it: the outcome of each of the three
  queries, after the queue and the retries, as data or as the error thrown. The
  phase-group query answers \<^verbatim>\<open>tournament?.events\<close>, each event with its
  \<open>phaseGroups\<close>; the sets query answers \<^verbatim>\<open>phaseGroup?.sets?.nodes\<close>. The field
  \<open>random_suffix\<close> is what \<^verbatim>\<open>Math.random().toString(36).substr(2, 9)\<close> yields;
  successive draws are not told apart, so that two sets without an id get the same
  synthesized match id here, where the source gives them different ones. No statement
  below is about synthesized ids.
\<close>

record StartGg =
  tournamentQuery :: "string \<Rightarrow> error + RawTournament option"
  phaseGroupsQuery :: "string \<Rightarrow> string \<Rightarrow> error + RawPhaseGroup list option list option"
  setsQuery :: "nat \<Rightarrow> nat \<Rightarrow> error + RawSet list option"
  random_suffix :: string

subsection \<open>JavaScript helpers\<close>

definition truthy_num :: "nat option \<Rightarrow> bool" where
  "truthy_num x = (case x of None \<Rightarrow> False | Some n \<Rightarrow> n \<noteq> 0)"

definition or_str :: "string option \<Rightarrow> string \<Rightarrow> string" where
  "or_str x d = (case x of None \<Rightarrow> d | Some s \<Rightarrow> if s = [] then d else s)"

definition or_undefined :: "int option \<Rightarrow> int option" where
  "or_undefined x = (case x of None \<Rightarrow> None | Some n \<Rightarrow> if n = 0 then None else Some n)"

function string_of_nat :: "nat \<Rightarrow> string" where
  "string_of_nat n =
     (if n < 10 then [''0123456789'' ! n]
      else string_of_nat (n div 10) @ [''0123456789'' ! (n mod 10)])"
  by pat_completeness auto
termination
  by (relation "measure (\<lambda>n. n)") auto

declare string_of_nat.simps [simp del]

definition string_of_int :: "int \<Rightarrow> string" where
  "string_of_int i = (if i < 0 then CHR ''-'' # string_of_nat (nat (- i)) else string_of_nat (nat i))"

text \<open>
  A JavaScript \<^verbatim>\<open>Map\<close> keeps its keys in insertion order; \<^verbatim>\<open>set\<close> on a key
  already present replaces the value where it stands.
\<close>

fun map_set :: "'k \<Rightarrow> 'a \<Rightarrow> ('k \<times> 'a) list \<Rightarrow> ('k \<times> 'a) list" where
  "map_set k v [] = [(k, v)]"
| "map_set k v ((k', v') # kvs) =
     (if k = k' then (k, v) # kvs else (k', v') # map_set k v kvs)"

definition map_values :: "('k \<times> 'a) list \<Rightarrow> 'a list" where
  "map_values kvs = map snd kvs"

subsection \<open>Transformations\<close>

definition transformPlayerData :: "string \<Rightarrow> RawEntrant option \<Rightarrow> Player" where
  "transformPlayerData rnd entrant_opt =
     (case entrant_opt of
        None \<Rightarrow> \<lparr> p_id = ''unknown-'' @ rnd, p_tag = ''Unknown Player'',
                  p_name = None, p_startggId = None \<rparr>
      | Some entrant \<Rightarrow>
          (case en_id entrant of
             None \<Rightarrow> \<lparr> p_id = ''unknown-'' @ rnd, p_tag = ''Unknown Player'',
                       p_name = None, p_startggId = None \<rparr>
           | Some i \<Rightarrow>
               if i = 0 then \<lparr> p_id = ''unknown-'' @ rnd, p_tag = ''Unknown Player'',
                               p_name = None, p_startggId = None \<rparr>
               else
                 (let participant = (case en_participants entrant of
                                       None \<Rightarrow> None
                                     | Some [] \<Rightarrow> None
                                     | Some (p # ps) \<Rightarrow> Some p)
                  in \<lparr> p_id = string_of_nat i,
                       p_tag = or_str (case participant of None \<Rightarrow> None | Some p \<Rightarrow> gamerTag p)
                                 (or_str (en_name entrant) ''Unknown Player''),
                       p_name = (case participant of None \<Rightarrow> None | Some p \<Rightarrow> user_name p),
                       p_startggId = (case participant of
                                        None \<Rightarrow> None
                                      | Some p \<Rightarrow> map_option string_of_nat (rp_id p)) \<rparr>)))"

definition getMatchStatus :: "int option \<Rightarrow> MatchStatus" where
  "getMatchStatus st =
     (if st = Some 1 then pending
      else if st = Some 2 then in_progress
      else if st = Some 3 then completed
      else pending)"

text \<open>
  \<^verbatim>\<open>x?.id\<close> of an entrant that may be absent: undefined (\<open>None\<close>) when the entrant is
  absent, else the entrant's \<open>id\<close>, which may be null. Strict equality with a
  \<open>winnerId\<close> (a number or null) compares the two as they are.
\<close>

definition chain_id :: "RawEntrant option \<Rightarrow> nat option option" where
  "chain_id e = map_option en_id e"

definition slot_at :: "RawSet \<Rightarrow> nat \<Rightarrow> RawSlot option" where
  "slot_at rs i =
     (case slots rs of
        None \<Rightarrow> None
      | Some sl \<Rightarrow> if i < length sl then Some (sl ! i) else None)"

definition slot_entrant :: "RawSet \<Rightarrow> nat \<Rightarrow> RawEntrant option" where
  "slot_entrant rs i = (case slot_at rs i of None \<Rightarrow> None | Some s \<Rightarrow> sl_entrant s)"

definition parse_score :: "int option \<Rightarrow> int" where
  "parse_score v = (case v of None \<Rightarrow> 0 | Some n \<Rightarrow> n)"

definition score_from_slots :: "RawSet \<Rightarrow> Score option" where
  "score_from_slots rs =
     (case slots rs of
        None \<Rightarrow> None
      | Some sl \<Rightarrow>
          if length sl \<ge> 2 then
            (case (score_value (sl ! 0), score_value (sl ! 1)) of
               (Some slot1Score, Some slot2Score) \<Rightarrow>
                 Some \<lparr> player1Score = parse_score slot1Score,
                        player2Score = parse_score slot2Score \<rparr>
             | _ \<Rightarrow> None)
          else None)"

fun count_wins :: "nat option option \<Rightarrow> nat option option \<Rightarrow> RawGame list \<Rightarrow> int \<times> int \<Rightarrow> int \<times> int" where
  "count_wins p1 p2 [] w = w"
| "count_wins p1 p2 (g # gs) (player1Wins, player2Wins) =
     (if Some (g_winnerId g) = p1 then count_wins p1 p2 gs (player1Wins + 1, player2Wins)
      else if Some (g_winnerId g) = p2 then count_wins p1 p2 gs (player1Wins, player2Wins + 1)
      else count_wins p1 p2 gs (player1Wins, player2Wins))"

definition score_from_games :: "RawSet \<Rightarrow> Score option" where
  "score_from_games rs =
     (case games rs of
        None \<Rightarrow> None
      | Some gs \<Rightarrow>
          if length gs > 0 then
            (let (player1Wins, player2Wins) =
                   count_wins (chain_id (slot_entrant rs 0)) (chain_id (slot_entrant rs 1)) gs (0, 0)
             in if player1Wins > 0 \<or> player2Wins > 0
                then Some \<lparr> player1Score = player1Wins, player2Score = player2Wins \<rparr>
                else None)
          else None)"

definition score_from_winner :: "RawSet \<Rightarrow> Score option" where
  "score_from_winner rs =
     (if rs_state rs = Some 3 \<and> truthy_num (rs_winnerId rs) then
        (let player1Won = (chain_id (slot_entrant rs 0) = Some (rs_winnerId rs));
             player2Won = (chain_id (slot_entrant rs 1) = Some (rs_winnerId rs))
         in if player1Won \<or> player2Won
            then Some \<lparr> player1Score = (if player1Won then 1 else 0),
                        player2Score = (if player2Won then 1 else 0) \<rparr>
            else None)
      else None)"

definition transformMatchData :: "string \<Rightarrow> RawSet \<Rightarrow> string \<Rightarrow> Match" where
  "transformMatchData rnd rs bracketName' =
     (if \<not> truthy_num (rs_id rs) then
        \<lparr> m_id = ''invalid-'' @ rnd, m_round = ''Unknown Round'',
          player1 = None, player2 = None, winner = None, status = pending,
          bracketName = (if bracketName' = [] then ''Unknown Bracket'' else bracketName'),
          score = None, startedAt = None, completedAt = None, updatedAt = None \<rparr>
      else
        (let player1Data = slot_entrant rs 0;
             player2Data = slot_entrant rs 1;
             sc0 = score_from_slots rs;
             sc1 = (if sc0 = None then score_from_games rs else sc0);
             sc2 = (if sc1 = None then score_from_winner rs else sc1);
             winner' =
               (if truthy_num (rs_winnerId rs) then
                  (if chain_id player1Data = Some (rs_winnerId rs)
                   then Some (transformPlayerData rnd player1Data)
                   else if chain_id player2Data = Some (rs_winnerId rs)
                   then Some (transformPlayerData rnd player2Data)
                   else None)
                else None)
         in \<lparr> m_id = string_of_nat (case rs_id rs of None \<Rightarrow> 0 | Some i \<Rightarrow> i),
              m_round = or_str (fullRoundText rs)
                 (''Round '' @ (case rs_round rs of
                                  None \<Rightarrow> ''Unknown''
                                | Some r \<Rightarrow> if r = 0 then ''Unknown'' else string_of_int r)),
              player1 = (case player1Data of
                           None \<Rightarrow> None
                         | Some e \<Rightarrow> Some (transformPlayerData rnd player1Data)),
              player2 = (case player2Data of
                           None \<Rightarrow> None
                         | Some e \<Rightarrow> Some (transformPlayerData rnd player2Data)),
              winner = winner',
              status = getMatchStatus (rs_state rs),
              bracketName = (if bracketName' = [] then ''Unknown Bracket'' else bracketName'),
              score = sc2,
              startedAt = or_undefined (rs_startedAt rs),
              completedAt = or_undefined (rs_completedAt rs),
              updatedAt = or_undefined (rs_updatedAt rs) \<rparr>))"

definition getBracketName :: "RawPhaseGroup \<Rightarrow> string" where
  "getBracketName phaseGroup =
     (let phaseName = or_str (phase_name phaseGroup) [];
          identifier = or_str (displayIdentifier phaseGroup)
                         (''Pool '' @ string_of_nat (pg_id phaseGroup))
      in if phaseName \<noteq> [] then phaseName @ '' - '' @ identifier else identifier)"

definition transformBasicEventData :: "string \<Rightarrow> RawEvent \<Rightarrow> TournamentEvent" where
  "transformBasicEventData rnd rawEvent =
     (if \<not> truthy_num (ev_id rawEvent) then
        \<lparr> e_id = ''unknown-event-'' @ rnd, e_name = ''Unknown Event'', e_slug = ''unknown-event'',
          brackets = [], participants = [], currentMatches = [] \<rparr>
      else
        \<lparr> e_id = string_of_nat (case ev_id rawEvent of None \<Rightarrow> 0 | Some i \<Rightarrow> i),
          e_name = or_str (ev_name rawEvent) ''Unknown Event'',
          e_slug = or_str (ev_slug rawEvent) ''unknown-event'',
          brackets = [],
          participants =
            (case entrants_nodes rawEvent of
               None \<Rightarrow> []
             | Some nodes \<Rightarrow>
                 map (\<lambda>entrant. transformPlayerData rnd (Some entrant))
                   (filter (\<lambda>entrant. truthy_num (en_id entrant)) nodes)),
          currentMatches = [] \<rparr>)"

definition transformBasicTournamentData :: "string \<Rightarrow> RawTournament \<Rightarrow> Tournament" where
  "transformBasicTournamentData rnd rawTournament =
     \<lparr> t_id = (case rt_id rawTournament of
                 None \<Rightarrow> ''unknown''
               | Some i \<Rightarrow> string_of_nat i),
       t_name = or_str (rt_name rawTournament) ''Unknown Tournament'',
       t_slug = or_str (rt_slug rawTournament) ''unknown-tournament'',
       t_url = or_str (rt_url rawTournament) [],
       events =
         (case rt_events rawTournament of
            None \<Rightarrow> []
          | Some evs \<Rightarrow>
              map (transformBasicEventData rnd)
                (filter (\<lambda>event. truthy_num (ev_id event)) evs)) \<rparr>"

subsection \<open>Loading the sets of a phase group\<close>

text \<open>
  The variables of \<^verbatim>\<open>loadEventDetails\<close> that the page loop reads and writes, with the
  list of the requests handed to \<^verbatim>\<open>query\<close> so far.
\<close>

record pages_state =
  page :: nat
  hasMorePages :: bool
  bracketMatches :: "Match list"
  bracketPlayers :: "(string \<times> Player) list"
  allMatches :: "Match list"
  allPlayers :: "(string \<times> Player) list"
  requests :: "gql_request list"

definition loadPhaseGroupSets ::
  "StartGg \<Rightarrow> nat \<Rightarrow> nat \<Rightarrow> gql_request list \<Rightarrow> RawSet list \<times> gql_request list" where
  "loadPhaseGroupSets up phaseGroupId pg reqs =
     (case setsQuery up phaseGroupId pg of
        Inl e \<Rightarrow> ([], reqs @ [PhaseGroupSetsQuery phaseGroupId pg])
      | Inr None \<Rightarrow> ([], reqs @ [PhaseGroupSetsQuery phaseGroupId pg])
      | Inr (Some nodes) \<Rightarrow> (nodes, reqs @ [PhaseGroupSetsQuery phaseGroupId pg]))"

definition add_slot_player :: "string \<Rightarrow> RawSlot \<Rightarrow> pages_state \<Rightarrow> pages_state" where
  "add_slot_player rnd slot s =
     (case sl_entrant slot of
        None \<Rightarrow> s
      | Some e \<Rightarrow>
          if truthy_num (en_id e) then
            (let player = transformPlayerData rnd (Some e)
             in if p_id player \<noteq> [] \<and> p_tag player \<noteq> ''Unknown Player''
                then s\<lparr> bracketPlayers := map_set (p_id player) player (bracketPlayers s),
                        allPlayers := map_set (p_id player) player (allPlayers s) \<rparr>
                else s)
          else s)"

definition add_set_players :: "string \<Rightarrow> RawSet \<Rightarrow> pages_state \<Rightarrow> pages_state" where
  "add_set_players rnd rs s =
     (case slots rs of None \<Rightarrow> s | Some sl \<Rightarrow> fold (add_slot_player rnd) sl s)"

definition add_page :: "StartGg \<Rightarrow> RawPhaseGroup \<Rightarrow> RawSet list \<Rightarrow> pages_state \<Rightarrow> pages_state" where
  "add_page up phaseGroup setsData s =
     (let bracketName' = getBracketName phaseGroup;
          ms = map (\<lambda>rs. transformMatchData (random_suffix up) rs bracketName') setsData;
          s1 = s\<lparr> bracketMatches := bracketMatches s @ ms, allMatches := allMatches s @ ms \<rparr>
      in fold (add_set_players (random_suffix up)) setsData s1)"

text \<open>Adding a page changes neither the page counter, nor the flag, nor the requests.\<close>

lemma add_slot_player_control:
  "page (add_slot_player rnd slot s) = page s
   \<and> hasMorePages (add_slot_player rnd slot s) = hasMorePages s
   \<and> requests (add_slot_player rnd slot s) = requests s"
  by (simp add: add_slot_player_def Let_def split: option.splits)

lemma add_set_players_control:
  "page (add_set_players rnd rs s) = page s
   \<and> hasMorePages (add_set_players rnd rs s) = hasMorePages s
   \<and> requests (add_set_players rnd rs s) = requests s"
proof -
  have "page (fold (add_slot_player rnd) sl s) = page s
   \<and> hasMorePages (fold (add_slot_player rnd) sl s) = hasMorePages s
   \<and> requests (fold (add_slot_player rnd) sl s) = requests s" for sl
    by (induction sl arbitrary: s) (simp_all add: add_slot_player_control)
  then show ?thesis
    by (simp add: add_set_players_def split: option.splits)
qed

lemma add_page_control:
  "page (add_page up phaseGroup setsData s) = page s
   \<and> hasMorePages (add_page up phaseGroup setsData s) = hasMorePages s
   \<and> requests (add_page up phaseGroup setsData s) = requests s"
proof -
  have "page (fold (add_set_players rnd) sd s) = page s
   \<and> hasMorePages (fold (add_set_players rnd) sd s) = hasMorePages s
   \<and> requests (fold (add_set_players rnd) sd s) = requests s" for sd rnd s
    by (induction sd arbitrary: s) (simp_all add: add_set_players_control)
  then show ?thesis
    by (simp add: add_page_def Let_def)
qed

function setPagesLoop :: "StartGg \<Rightarrow> RawPhaseGroup \<Rightarrow> pages_state \<Rightarrow> pages_state" where
  "setPagesLoop up phaseGroup s =
     (if hasMorePages s \<and> page s \<le> 10 then
        (let (setsData, reqs) = loadPhaseGroupSets up (pg_id phaseGroup) (page s) (requests s);
             s1 = s\<lparr> requests := reqs \<rparr>
         in if length setsData > 0 then
              (let s2 = add_page up phaseGroup setsData s1
               in if length setsData < 30
                  then setPagesLoop up phaseGroup (s2\<lparr> hasMorePages := False \<rparr>)
                  else setPagesLoop up phaseGroup (s2\<lparr> page := page s2 + 1 \<rparr>))
            else setPagesLoop up phaseGroup (s1\<lparr> hasMorePages := False \<rparr>))
      else s)"
  by pat_completeness auto
termination
  by (relation "measure (\<lambda>(up, phaseGroup, s). if hasMorePages s \<and> page s \<le> 10 then 12 - page s else 0)")
     (auto simp: add_page_control)

declare setPagesLoop.simps [simp del]

subsection \<open>Loading an event and assembling the tournament\<close>

fun findIndex :: "('a \<Rightarrow> bool) \<Rightarrow> 'a list \<Rightarrow> nat option" where
  "findIndex P [] = None"
| "findIndex P (x # xs) =
     (if P x then Some 0 else map_option Suc (findIndex P xs))"

definition finish_bracket :: "RawPhaseGroup \<Rightarrow> pages_state \<Rightarrow> TournamentEvent \<Rightarrow> TournamentEvent" where
  "finish_bracket phaseGroup s event =
     (let bs = (case findIndex (\<lambda>b. b_id b = pg_id phaseGroup) (brackets event) of
                  None \<Rightarrow> brackets event
                | Some bracketIndex \<Rightarrow>
                    (brackets event)[bracketIndex :=
                       (brackets event ! bracketIndex)\<lparr> matches := bracketMatches s \<rparr>]);
          existingPlayerIds = set (map p_id (participants event));
          newPlayers = filter (\<lambda>p. p_id p \<notin> existingPlayerIds) (map_values (bracketPlayers s));
          newCurrentMatches =
            filter (\<lambda>m. status m = pending \<or> status m = in_progress) (bracketMatches s)
      in event\<lparr> brackets := bs,
                participants := participants event @ newPlayers,
                currentMatches := currentMatches event @ newCurrentMatches \<rparr>)"

fun phaseGroupsLoop ::
  "StartGg \<Rightarrow> RawPhaseGroup list \<Rightarrow> TournamentEvent \<times> pages_state \<Rightarrow> TournamentEvent \<times> pages_state"
where
  "phaseGroupsLoop up [] (event, s) = (event, s)"
| "phaseGroupsLoop up (phaseGroup # rest) (event, s) =
     (let s0 = s\<lparr> page := 1, hasMorePages := True, bracketMatches := [], bracketPlayers := [] \<rparr>;
          s' = setPagesLoop up phaseGroup s0
      in phaseGroupsLoop up rest (finish_bracket phaseGroup s' event, s'))"

definition remove_duplicates :: "Match list \<Rightarrow> Match list" where
  "remove_duplicates self =
     map snd (filter (\<lambda>(index, match). findIndex (\<lambda>m. m_id m = m_id match) self = Some index)
                (enumerate 0 self))"

definition loadEventDetails ::
  "StartGg \<Rightarrow> TournamentEvent \<Rightarrow> string \<Rightarrow> gql_request list \<Rightarrow>
     (error + TournamentEvent) \<times> gql_request list" where
  "loadEventDetails up event tournamentSlug reqs =
     (let reqs1 = reqs @ [PhaseGroupsQuery tournamentSlug (e_id event)]
      in case phaseGroupsQuery up tournamentSlug (e_id event) of
           Inl e \<Rightarrow> (Inl e, reqs1)
         | Inr None \<Rightarrow> (Inr event, reqs1)
         | Inr (Some []) \<Rightarrow> (Inr event, reqs1)
         | Inr (Some (eventDetails # others)) \<Rightarrow>
             (case eventDetails of
                None \<Rightarrow> (Inr event, reqs1)
              | Some phaseGroups \<Rightarrow>
                  (let event1 = event\<lparr>
                         brackets := map (\<lambda>phaseGroup.
                                       \<lparr> b_id = pg_id phaseGroup,
                                         b_name = getBracketName phaseGroup,
                                         matches = [] \<rparr>) phaseGroups,
                         currentMatches := [] \<rparr>;
                       (event2, s) = phaseGroupsLoop up phaseGroups
                          (event1, \<lparr> page = 1, hasMorePages = True, bracketMatches = [],
                                     bracketPlayers = [], allMatches = [], allPlayers = [],
                                     requests = reqs1 \<rparr>)
                   in (Inr (event2\<lparr> currentMatches := remove_duplicates (currentMatches event2) \<rparr>),
                       requests s))))"

fun loadEvents ::
  "StartGg \<Rightarrow> string \<Rightarrow> TournamentEvent list \<Rightarrow> gql_request list \<Rightarrow>
     TournamentEvent list \<times> gql_request list" where
  "loadEvents up slug [] reqs = ([], reqs)"
| "loadEvents up slug (event # rest) reqs =
     (let (r, reqs1) = loadEventDetails up event slug reqs;
          event' = (case r of Inl e \<Rightarrow> event | Inr loaded \<Rightarrow> loaded);
          (rest', reqs2) = loadEvents up slug rest reqs1
      in (event' # rest', reqs2))"

definition getTournamentBySlug ::
  "StartGg \<Rightarrow> string \<Rightarrow> gql_request list \<Rightarrow> (error + Tournament) \<times> gql_request list" where
  "getTournamentBySlug up slug reqs =
     (let reqs1 = reqs @ [TournamentQuery slug]
      in case tournamentQuery up slug of
           Inl e \<Rightarrow> (Inl e, reqs1)
         | Inr None \<Rightarrow> (Inl (TournamentNotFound slug), reqs1)
         | Inr (Some rawTournament) \<Rightarrow>
             (let tournament = transformBasicTournamentData (random_suffix up) rawTournament;
                  (evs, reqs2) = loadEvents up slug (events tournament) reqs1
              in (Inr (tournament\<lparr> events := evs \<rparr>), reqs2)))"

subsection \<open>Participants\<close>

text \<open>
  The players a page loop has collected are known players when their keys are distinct,
  each is filed under its own id, and none carries the tag \<open>Unknown Player\<close>. An event
  has grown from an earlier state of itself when its participants are still distinct by
  id if they were before, and every participant with the tag \<open>Unknown Player\<close> was
  there before.
\<close>

definition known_players :: "(string \<times> Player) list \<Rightarrow> bool" where
  "known_players kvs \<longleftrightarrow>
     distinct (map fst kvs) \<and> (\<forall>(k, p)\<in>set kvs. k = p_id p \<and> p_tag p \<noteq> ''Unknown Player'')"

definition grown_from :: "TournamentEvent \<Rightarrow> TournamentEvent \<Rightarrow> bool" where
  "grown_from ev0 ev \<longleftrightarrow>
     (distinct (map p_id (participants ev0)) \<longrightarrow> distinct (map p_id (participants ev)))
     \<and> (\<forall>p\<in>set (participants ev). p \<in> set (participants ev0) \<or> p_tag p \<noteq> ''Unknown Player'')"

subsection \<open>Sample upstreams\<close>

text \<open>
  An upstream serves a phase group's sets in pages of 30 (the \<^verbatim>\<open>perPage\<close> of the sets
  query) when page \<open>p\<close>, counted from 1, holds the sets from position \<open>30 * (p - 1)\<close> on.
\<close>

definition serves_in_pages :: "StartGg \<Rightarrow> nat \<Rightarrow> RawSet list \<Rightarrow> bool" where
  "serves_in_pages up pgid sets \<longleftrightarrow>
     (\<forall>p\<ge>1. setsQuery up pgid p = Inr (Some (take 30 (drop (30 * (p - 1)) sets))))"

definition pageQ :: "RawPhaseGroup \<Rightarrow> nat \<Rightarrow> gql_request" where
  "pageQ phaseGroup p = PhaseGroupSetsQuery (pg_id phaseGroup) p"

definition first_page :: "gql_request list \<Rightarrow> pages_state" where
  "first_page reqs =
     \<lparr> page = 1, hasMorePages = True, bracketMatches = [], bracketPlayers = [],
       allMatches = [], allPlayers = [], requests = reqs \<rparr>"

definition plain_set :: RawSet where
  "plain_set =
     \<lparr> rs_id = Some 11, fullRoundText = None, rs_round = Some 1, rs_state = Some 3,
       rs_startedAt = None, rs_completedAt = None, rs_updatedAt = None,
       slots = None, games = None, rs_winnerId = None \<rparr>"

definition paged_upstream :: "RawSet list \<Rightarrow> StartGg" where
  "paged_upstream sets =
     \<lparr> tournamentQuery = (\<lambda>slug. Inr None),
       phaseGroupsQuery = (\<lambda>slug eventId. Inr None),
       setsQuery = (\<lambda>pgid p. Inr (Some (take 30 (drop (30 * (p - 1)) sets)))),
       random_suffix = ''abcdefghi'' \<rparr>"

definition pool :: RawPhaseGroup where
  "pool = \<lparr> pg_id = 1, displayIdentifier = Some ''A1'', phase_name = Some ''Pools'' \<rparr>"

text \<open>
  An upstream whose tournament has one event; the event's entrant sample holds one
  entrant that has an id but neither a name nor a participant with a gamer tag.
\<close>

definition nameless_entrant :: RawEntrant where
  "nameless_entrant = \<lparr> en_id = Some 7, en_name = None, en_participants = Some [] \<rparr>"

definition nameless_upstream :: StartGg where
  "nameless_upstream =
     \<lparr> tournamentQuery = (\<lambda>slug. Inr (Some
          \<lparr> rt_id = Some 1, rt_name = Some ''Demo'', rt_slug = Some ''demo'', rt_url = None,
            rt_events = Some [\<lparr> ev_id = Some 5, ev_name = Some ''Singles'',
                                ev_slug = Some ''singles'',
                                entrants_nodes = Some [nameless_entrant] \<rparr>] \<rparr>)),
       phaseGroupsQuery = (\<lambda>slug eventId. Inr (Some [Some []])),
       setsQuery = (\<lambda>pgid p. Inr (Some [])),
       random_suffix = ''abcdefghi'' \<rparr>"

section \<open>Cache factory\<close>

text \<open>
  \<^verbatim>\<open>createCacheService\<close> returns the fallback service \<open>[Redis, InMemory]\<close> when
  \<^verbatim>\<open>REDIS_URL\<close> is set and the in-memory service otherwise; both start empty, and the
  Redis service starts disconnected (its flag is set by the client's events later). The
  router's \<open>cacheService\<close> is the value the factory returned, in whatever state its
  backends are by then: \<open>factory_built\<close> recognises these services.
\<close>

definition createCacheService :: "string option \<Rightarrow> 'v cache" where
  "createCacheService redisUrl =
     (case redisUrl of
        Some url \<Rightarrow>
          if url \<noteq> [] then Fallback [Redis redis_down, InMemory Map.empty]
          else InMemory Map.empty
      | None \<Rightarrow> InMemory Map.empty)"

fun factory_built :: "'v cache \<Rightarrow> bool" where
  "factory_built (InMemory m) = True"
| "factory_built (Fallback [Redis r, InMemory m]) = True"
| "factory_built c = False"

section \<open>Tournament router\<close>

text \<open>The text of an error, as \<^verbatim>\<open>error.message\<close> gives it.\<close>

definition message :: "error \<Rightarrow> string" where
  "message e =
     (case e of
        RedisNotConnected \<Rightarrow> ''Redis not connected''
      | RedisCommandError msg \<Rightarrow> msg
      | AllCachesFailedSet key names \<Rightarrow>
          ''All caches failed to SET key '' @ key @ '': '' @ join '', '' names
      | NoCacheImplementation \<Rightarrow>
          ''FallbackCacheService requires at least one cache implementation''
      | TournamentNotFound slug \<Rightarrow>
          ''Tournament with slug '' @ [CHR 0x22] @ slug @ [CHR 0x22]
            @ '' not found or tournament data is invalid''
      | GraphQLError es \<Rightarrow> ''GraphQL Error: '' @ join '', '' es
      | AuthenticationError \<Rightarrow> ''Authentication Error: Invalid or expired start.gg API token''
      | ServerError c \<Rightarrow>
          ''Server Error: start.gg API is temporarily unavailable ('' @ string_of_nat c @ '')''
      | ApiError msg st \<Rightarrow>
          ''API Error: '' @ msg @ '' (Status: ''
            @ (case st of None \<Rightarrow> ''Unknown'' | Some c \<Rightarrow> string_of_nat c) @ '')''
      | Thrown msg \<Rightarrow> msg)"

record TournamentResponse =
  resp_data :: Tournament
  cached :: bool
  cachedAt :: "int option"
  ttl :: "int option"
  match_state :: MatchStateMetadata

datatype http_response =
    Response200 TournamentResponse
  | Response500 string

fun status_code :: "http_response \<Rightarrow> nat" where
  "status_code (Response200 body) = 200"
| "status_code (Response500 err) = 500"

definition cacheKey :: "string \<Rightarrow> string" where
  "cacheKey slug = ''tournament:'' @ slug"

text \<open>
  The handler of \<^verbatim>\<open>GET /:slug\<close> runs from one \<^verbatim>\<open>await\<close> to the next without
  interruption; between two awaits the handlers of other requests may run. The stage of
  a request says which await it is at: it has not read the cache yet (\<open>Start\<close>), it
  awaits the metadata of a hit, its upstream fetch is in flight (\<open>Fetching\<close>), it awaits
  the cache write, or its response is sent. The requests the start.gg client sends for
  one fetch are logged together when the fetch completes.
\<close>

datatype stage =
    Start
  | AwaitMetadata Tournament
  | Fetching
  | Storing Tournament int MatchStateMetadata
  | Done http_response

record request =
  slug :: string
  bustCache :: bool
  stage :: stage

record server =
  cacheService :: "Tournament cache"
  upstream_reqs :: "gql_request list"
  inbound :: "request list"

definition step :: "StartGg \<Rightarrow> int \<Rightarrow> request \<Rightarrow> server \<Rightarrow> request \<times> server" where
  "step up now r sv =
     (case stage r of
        Start \<Rightarrow>
          if bustCache r then (r\<lparr> stage := Fetching \<rparr>, sv)
          else
            (case cache_get (cacheService sv) (cacheKey (slug r)) now of
               (Inl e, c') \<Rightarrow>
                 (r\<lparr> stage := Done (Response500 (message e)) \<rparr>, sv\<lparr> cacheService := c' \<rparr>)
             | (Inr (Some hit), c') \<Rightarrow>
                 (r\<lparr> stage := AwaitMetadata hit \<rparr>, sv\<lparr> cacheService := c' \<rparr>)
             | (Inr None, c') \<Rightarrow>
                 (r\<lparr> stage := Fetching \<rparr>, sv\<lparr> cacheService := c' \<rparr>))
      | AwaitMetadata hit \<Rightarrow>
          (case cache_getMetadata (cacheService sv) (cacheKey (slug r)) now of
             (Inl e, c') \<Rightarrow>
               (r\<lparr> stage := Done (Response500 (message e)) \<rparr>, sv\<lparr> cacheService := c' \<rparr>)
           | (Inr metadata, c') \<Rightarrow>
               (r\<lparr> stage := Done (Response200
                     \<lparr> resp_data = hit, cached = True,
                       cachedAt = map_option meta_createdAt metadata,
                       ttl = map_option meta_ttl metadata,
                       match_state = getMatchStateMetadata now hit \<rparr>) \<rparr>,
                sv\<lparr> cacheService := c' \<rparr>))
      | Fetching \<Rightarrow>
          (case getTournamentBySlug up (slug r) (upstream_reqs sv) of
             (Inl e, reqs) \<Rightarrow>
               (r\<lparr> stage := Done (Response500 (message e)) \<rparr>, sv\<lparr> upstream_reqs := reqs \<rparr>)
           | (Inr tournament, reqs) \<Rightarrow>
               (r\<lparr> stage := Storing tournament (calculateDynamicTTL now tournament)
                                 (getMatchStateMetadata now tournament) \<rparr>,
                sv\<lparr> upstream_reqs := reqs \<rparr>))
      | Storing tournament ttl' matchMetadata \<Rightarrow>
          (case cache_set (cacheService sv) (cacheKey (slug r)) tournament ttl' now of
             (Inl e, c') \<Rightarrow>
               (r\<lparr> stage := Done (Response500 (message e)) \<rparr>, sv\<lparr> cacheService := c' \<rparr>)
           | (Inr u, c') \<Rightarrow>
               (r\<lparr> stage := Done (Response200
                     \<lparr> resp_data = tournament, cached = False, cachedAt = Some now,
                       ttl = Some ttl', match_state = matchMetadata \<rparr>) \<rparr>,
                sv\<lparr> cacheService := c' \<rparr>))
      | Done resp \<Rightarrow> (r, sv))"

text \<open>
  A schedule names, turn by turn, the request whose handler resumes and the clock
  reading of that turn.
\<close>

definition advance :: "StartGg \<Rightarrow> nat \<times> int \<Rightarrow> server \<Rightarrow> server" where
  "advance up turn sv =
     (let (i, now) = turn
      in if i < length (inbound sv) then
           (let (r', sv') = step up now (inbound sv ! i) sv
            in sv'\<lparr> inbound := (inbound sv')[i := r'] \<rparr>)
         else sv)"

definition run :: "StartGg \<Rightarrow> (nat \<times> int) list \<Rightarrow> server \<Rightarrow> server" where
  "run up schedule sv = fold (advance up) schedule sv"

text \<open>
  Every call of \<^verbatim>\<open>getTournamentBySlug\<close> sends the tournament query first, and sends it
  once: the upstream fetches that have completed are the tournament queries of the log,
  and those in flight are the requests at the stage \<open>Fetching\<close>.
\<close>

definition isTQ :: "gql_request \<Rightarrow> bool" where
  "isTQ q = (case q of TournamentQuery s \<Rightarrow> True | _ \<Rightarrow> False)"

definition fetches :: "server \<Rightarrow> nat" where
  "fetches sv = length (filter isTQ (upstream_reqs sv))"

definition in_flight :: "server \<Rightarrow> nat" where
  "in_flight sv = length (filter (\<lambda>r. stage r = Fetching) (inbound sv))"


definition response_of :: "request \<Rightarrow> http_response option" where
  "response_of r = (case stage r of Done resp \<Rightarrow> Some resp | _ \<Rightarrow> None)"

subsection \<open>Progress of a request\<close>





subsection \<open>Sample servers\<close>

definition demo_upstream :: StartGg where
  "demo_upstream =
     \<lparr> tournamentQuery = (\<lambda>slug. Inr (Some
          \<lparr> rt_id = Some 1, rt_name = Some ''Demo'', rt_slug = Some ''demo'', rt_url = None,
            rt_events = Some [] \<rparr>)),
       phaseGroupsQuery = (\<lambda>slug eventId. Inr None),
       setsQuery = (\<lambda>pgid p. Inr (Some [])),
       random_suffix = ''abcdefghi'' \<rparr>"

definition demo_tournament :: Tournament where
  "demo_tournament =
     \<lparr> t_id = ''1'', t_name = ''Demo'', t_slug = ''demo'', t_url = [], events = [] \<rparr>"

definition missing_upstream :: StartGg where
  "missing_upstream =
     \<lparr> tournamentQuery = (\<lambda>slug. Inr None),
       phaseGroupsQuery = (\<lambda>slug eventId. Inr None),
       setsQuery = (\<lambda>pgid p. Inr (Some [])),
       random_suffix = ''abcdefghi'' \<rparr>"

definition read_demo :: request where
  "read_demo = \<lparr> slug = ''demo'', bustCache = False, stage = Start \<rparr>"

definition two_readers :: server where
  "two_readers =
     \<lparr> cacheService = InMemory Map.empty, upstream_reqs = [], inbound = [read_demo, read_demo] \<rparr>"

definition one_reader :: server where
  "one_reader =
     \<lparr> cacheService = InMemory Map.empty, upstream_reqs = [], inbound = [read_demo] \<rparr>"

definition no_metadata :: MatchStateMetadata where
  "no_metadata =
     \<lparr> meta_hasOngoingMatches = False, meta_hasRecentMatches = False,
       counts = \<lparr> ongoing = 0, recentlyCompleted = 0, pendingCount = 0, oldCompleted = 0 \<rparr> \<rparr>"

definition fetching_demo :: request where
  "fetching_demo = \<lparr> slug = ''demo'', bustCache = False, stage = Fetching \<rparr>"

definition storing_demo :: request where
  "storing_demo =
     \<lparr> slug = ''demo'', bustCache = False, stage = Storing demo_tournament 1800 no_metadata \<rparr>"

definition redis_down_server :: server where
  "redis_down_server =
     \<lparr> cacheService = Fallback [Redis redis_down, InMemory Map.empty],
       upstream_reqs = [],
       inbound = [fetching_demo] \<rparr>"


section \<open>Properties of the cache backends\<close>

lemma fallback_set_all_caches:
  "snd (fallback_set_all cs k v t now) = map (\<lambda>c. snd (cache_set c k v t now)) cs"
  by (induction cs) (auto split: prod.splits sum.splits)

lemma fallback_set_all_errors:
  "length (fst (fallback_set_all cs k v t now)) =
     length (filter (\<lambda>c. isl (fst (cache_set c k v t now))) cs)"
  by (induction cs) (auto split: prod.splits sum.splits)

lemma length_filter_eq_iff: "length (filter P xs) = length xs \<longleftrightarrow> (\<forall>x\<in>set xs. P x)"
  by (metis filter_id_conv length_filter_less less_irrefl_nat)

lemma unit_result_iff: "(x :: error + unit) = Inr () \<longleftrightarrow> \<not> isl x"
  by (cases x) auto

text \<open>
  Claim C5. A composite \<open>set\<close> runs the \<open>set\<close> of every backend (the list of backends
  afterwards is the list of the backends each after its own \<open>set\<close>); it reports success
  exactly when the \<open>set\<close> of at least one backend succeeded, and it fails exactly when the
  \<open>set\<close> of every backend faulted. This holds for every key, value and TTL, the
  positive ones included. (The warning on a partial failure is a log line and is not
  part of the model.)
\<close>

theorem C5_composite_set:
  "(snd (cache_set (Fallback caches) key val ttlSeconds now) =
        Fallback (map (\<lambda>c. snd (cache_set c key val ttlSeconds now)) caches))
   \<and> (fst (cache_set (Fallback caches) key val ttlSeconds now) = Inr ()
        \<longleftrightarrow> (\<exists>c\<in>set caches. fst (cache_set c key val ttlSeconds now) = Inr ()))
   \<and> (isl (fst (cache_set (Fallback caches) key val ttlSeconds now))
        \<longleftrightarrow> (\<forall>c\<in>set caches. isl (fst (cache_set c key val ttlSeconds now))))"
  using fallback_set_all_caches[of caches key val ttlSeconds now]
        fallback_set_all_errors[of caches key val ttlSeconds now]
        length_filter_eq_iff[of "\<lambda>c. isl (fst (cache_set c key val ttlSeconds now))" caches]
  by (auto split: prod.splits simp: unit_result_iff)

theorem C5_composite_set_witness:
  "(fst (cache_set (Fallback [Redis redis_down, InMemory Map.empty]) ''k'' (7::nat) 60 1000) = Inr ()
      \<and> (\<exists>c\<in>set [Redis redis_down, InMemory Map.empty].
            fst (cache_set c ''k'' (7::nat) 60 1000) = Inr ()))
   \<and> (isl (fst (cache_set (Fallback [Redis redis_down]) ''k'' (7::nat) 60 1000))
      \<and> fst (cache_set (Redis redis_down) ''k'' (7::nat) 60 1000) = Inl RedisNotConnected)"
  using C5_composite_set[of "[Redis redis_down, InMemory Map.empty]" "''k''" 7 60 1000]
        C5_composite_set[of "[Redis redis_down]" "''k''" 7 60 1000]
  by (simp add: redis_down_def redis_set_def redis_guard_def)

lemma fallback_get_Some_iff:
  "fst (fallback_get cs k now) = Some v \<longleftrightarrow>
     (\<exists>i<length cs. fst (cache_get (cs ! i) k now) = Inr (Some v)
         \<and> (\<forall>j<i. \<forall>w. fst (cache_get (cs ! j) k now) \<noteq> Inr (Some w)))"
proof (induction cs)
  case Nil then show ?case by simp
next
  case (Cons c cs)
  show ?case
  proof (cases "\<exists>w. fst (cache_get c k now) = Inr (Some w)")
    case True
    then obtain w where w: "fst (cache_get c k now) = Inr (Some w)" by blast
    then have l: "fst (fallback_get (c # cs) k now) = Some w"
      by (auto split: prod.splits sum.splits option.splits)
    show ?thesis
    proof
      assume "fst (fallback_get (c # cs) k now) = Some v"
      with l have "w = v" by simp
      with w show "\<exists>i<length (c # cs). fst (cache_get ((c # cs) ! i) k now) = Inr (Some v)
         \<and> (\<forall>j<i. \<forall>w. fst (cache_get ((c # cs) ! j) k now) \<noteq> Inr (Some w))"
        by (intro exI[of _ 0]) simp
    next
      assume "\<exists>i<length (c # cs). fst (cache_get ((c # cs) ! i) k now) = Inr (Some v)
         \<and> (\<forall>j<i. \<forall>w. fst (cache_get ((c # cs) ! j) k now) \<noteq> Inr (Some w))"
      then obtain i where i: "i < length (c # cs)"
        "fst (cache_get ((c # cs) ! i) k now) = Inr (Some v)"
        "\<forall>j<i. \<forall>w. fst (cache_get ((c # cs) ! j) k now) \<noteq> Inr (Some w)" by blast
      have "i = 0"
      proof (rule ccontr)
        assume "i \<noteq> 0"
        then have "0 < i" by simp
        with i(3) w show False by force
      qed
      with i(2) w l show "fst (fallback_get (c # cs) k now) = Some v" by simp
    qed
  next
    case False
    then have l: "fst (fallback_get (c # cs) k now) = fst (fallback_get cs k now)"
      by (auto split: prod.splits sum.splits option.splits)
    show ?thesis
    proof
      assume "fst (fallback_get (c # cs) k now) = Some v"
      with l Cons.IH obtain i where i: "i < length cs"
        "fst (cache_get (cs ! i) k now) = Inr (Some v)"
        "\<forall>j<i. \<forall>w. fst (cache_get (cs ! j) k now) \<noteq> Inr (Some w)" by auto
      have "\<forall>j<Suc i. \<forall>w. fst (cache_get ((c # cs) ! j) k now) \<noteq> Inr (Some w)"
        using i(3) False by (auto simp: nth_Cons')
      with i(1,2) show "\<exists>i<length (c # cs). fst (cache_get ((c # cs) ! i) k now) = Inr (Some v)
         \<and> (\<forall>j<i. \<forall>w. fst (cache_get ((c # cs) ! j) k now) \<noteq> Inr (Some w))"
        by (intro exI[of _ "Suc i"]) simp
    next
      assume "\<exists>i<length (c # cs). fst (cache_get ((c # cs) ! i) k now) = Inr (Some v)
         \<and> (\<forall>j<i. \<forall>w. fst (cache_get ((c # cs) ! j) k now) \<noteq> Inr (Some w))"
      then obtain i where i: "i < length (c # cs)"
        "fst (cache_get ((c # cs) ! i) k now) = Inr (Some v)"
        "\<forall>j<i. \<forall>w. fst (cache_get ((c # cs) ! j) k now) \<noteq> Inr (Some w)" by blast
      from i(2) False obtain i' where i': "i = Suc i'" by (cases i) auto
      have "\<forall>j<i'. \<forall>w. fst (cache_get (cs ! j) k now) \<noteq> Inr (Some w)"
      proof (intro allI impI)
        fix j w assume "j < i'"
        then have "Suc j < i" using i' by simp
        with i(3) have "fst (cache_get ((c # cs) ! Suc j) k now) \<noteq> Inr (Some w)" by blast
        then show "fst (cache_get (cs ! j) k now) \<noteq> Inr (Some w)" by simp
      qed
      with i(1,2) i' have "fst (fallback_get cs k now) = Some v"
        using Cons.IH by auto
      with l show "fst (fallback_get (c # cs) k now) = Some v" by simp
    qed
  qed
qed

lemma fallback_get_None_iff:
  "fst (fallback_get cs k now) = None \<longleftrightarrow>
     (\<forall>c\<in>set cs. \<forall>w. fst (cache_get c k now) \<noteq> Inr (Some w))"
  by (induction cs) (auto split: prod.splits sum.splits option.splits)

text \<open>
  Claim C6. A composite \<open>get\<close> returns the value \<open>v\<close> exactly when some backend \<open>i\<close>
  returns \<open>v\<close> and every backend before it, in preference order, faulted or returned
  null; it returns null exactly when no backend returned a value, every one of them
  having faulted or returned null; it never faults itself. In particular, with the
  composite \<open>[A, B]\<close>, when \<open>A\<close> faults on the read and \<open>B\<close> returns \<open>v\<close>, the composite
  returns \<open>v\<close>.
\<close>

theorem C6_composite_get:
  "(fst (cache_get (Fallback caches) key now) = Inr (Some v) \<longleftrightarrow>
      (\<exists>i<length caches. fst (cache_get (caches ! i) key now) = Inr (Some v)
         \<and> (\<forall>j<i. \<forall>w. fst (cache_get (caches ! j) key now) \<noteq> Inr (Some w))))
   \<and> (fst (cache_get (Fallback caches) key now) = Inr None \<longleftrightarrow>
      (\<forall>c\<in>set caches. \<forall>w. fst (cache_get c key now) \<noteq> Inr (Some w)))
   \<and> \<not> isl (fst (cache_get (Fallback caches) key now))
   \<and> (isl (fst (cache_get A key now)) \<and> fst (cache_get B key now) = Inr (Some v)
        \<longrightarrow> fst (cache_get (Fallback [A, B]) key now) = Inr (Some v))"
proof -
  have 1: "fst (cache_get (Fallback cs) key now) = Inr (fst (fallback_get cs key now))"
    for cs :: "'a cache list"
    by (simp split: prod.splits)
  have 2: "isl (fst (cache_get A key now)) \<and> fst (cache_get B key now) = Inr (Some v)
        \<longrightarrow> fst (cache_get (Fallback [A, B]) key now) = Inr (Some v)"
    by (auto split: prod.splits sum.splits option.splits)
  show ?thesis
    using fallback_get_Some_iff[of caches key now v] fallback_get_None_iff[of caches key now] 2
    by (simp only: 1 sum.inject sum.disc simp_thms)
qed

theorem C6_composite_get_witness:
  "isl (fst (cache_get (Redis redis_down) ''k'' 2000))
   \<and> fst (cache_get (InMemory mem_with_k) ''k'' 2000) = Inr (Some 7)
   \<and> fst (cache_get (Fallback [Redis redis_down, InMemory mem_with_k]) ''k'' 2000) = Inr (Some 7)
   \<and> (\<exists>i<length [Redis redis_down, InMemory mem_with_k].
         fst (cache_get ([Redis redis_down, InMemory mem_with_k] ! i) ''k'' 2000) = Inr (Some 7)
         \<and> (\<forall>j<i. \<forall>w. fst (cache_get ([Redis redis_down, InMemory mem_with_k] ! j) ''k'' 2000)
                \<noteq> Inr (Some w)))
   \<and> fst (cache_get (Fallback [Redis redis_down, InMemory Map.empty]) ''k'' 2000) = Inr None
   \<and> fst (cache_get (Redis redis_down) ''k'' 2000) = Inl RedisNotConnected
   \<and> fst (cache_get (InMemory (Map.empty :: nat mem_cache)) ''k'' 2000) = Inr None"
  using C6_composite_get[of "[Redis redis_down, InMemory mem_with_k]" "''k''" 2000 7
          "Redis redis_down" "InMemory mem_with_k"]
        C6_composite_get[of "[Redis redis_down, InMemory Map.empty]" "''k''" 2000 7
          "Redis redis_down" "InMemory Map.empty"]
  by (simp add: redis_down_def mem_with_k_def redis_get_def redis_guard_def mem_get_def)

text \<open>
  Claim C10. \<open>set\<close> of the in-memory cache never raises, for every key, value and
  integer TTL. When the TTL is zero or negative, the entry it stores has an \<open>expiresAt\<close>
  that is not after the clock reading of the \<open>set\<close>; so a \<open>get\<close> that follows (at a clock
  reading \<open>now'\<close> not before that of the \<open>set\<close>) returns null and removes the entry,
  \<open>exists\<close> returns false and \<open>getMetadata\<close> returns null.
\<close>

theorem C10_inmemory_set_nonpositive_ttl:
  "fst (cache_set (InMemory cache) key val ttlSeconds now) = Inr ()
   \<and> snd (cache_set (InMemory cache) key val ttlSeconds now) =
       InMemory (mem_set cache key val ttlSeconds now)
   \<and> (ttlSeconds \<le> 0 \<and> now \<le> now' \<longrightarrow>
        (\<exists>entry. mem_set cache key val ttlSeconds now key = Some entry \<and> expiresAt entry \<le> now)
      \<and> mem_get (mem_set cache key val ttlSeconds now) key now' = (None, cache(key := None))
      \<and> mem_exists (mem_set cache key val ttlSeconds now) key now' = (False, cache(key := None))
      \<and> mem_getMetadata (mem_set cache key val ttlSeconds now) key now' = (None, cache(key := None)))"
  by (auto simp: mem_set_def mem_get_def mem_exists_def mem_getMetadata_def mult_le_0_iff)

theorem C10_inmemory_set_nonpositive_ttl_witness:
  "(0::int) \<le> 0 \<and> (1000::int) \<le> 1000
   \<and> fst (cache_set (InMemory mem_with_k) ''k'' 9 0 1000) = Inr ()
   \<and> mem_get (mem_set mem_with_k ''k'' 9 0 1000) ''k'' 1000 = (None, mem_with_k(''k'' := None))
   \<and> mem_exists (mem_set mem_with_k ''k'' 9 0 1000) ''k'' 1000 = (False, mem_with_k(''k'' := None))
   \<and> mem_getMetadata (mem_set mem_with_k ''k'' 9 0 1000) ''k'' 1000
        = (None, mem_with_k(''k'' := None))"
  using C10_inmemory_set_nonpositive_ttl[of mem_with_k "''k''" 9 0 1000 1000]
  by simp

section \<open>Properties of the TTL calculator\<close>

lemma ttl_inspect_flags:
  "ttl_inspect now m f =
     \<lparr> hasOngoingMatches = (hasOngoingMatches f \<or> status m = in_progress),
       hasRecentlyCompletedMatches = (hasRecentlyCompletedMatches f \<or>
          (status m = completed \<and>
              (\<exists>c. completedAt m = Some c \<and> c \<noteq> 0 \<and> now - c < 300000))),
       hasAnyPendingMatches = (hasAnyPendingMatches f \<or> status m = pending) \<rparr>"
  by (cases f) (auto simp: ttl_inspect_def Let_def split: option.splits)

lemma fold_ttl_inspect:
  "fold (ttl_inspect now) ms f =
     \<lparr> hasOngoingMatches = (hasOngoingMatches f \<or> (\<exists>m\<in>set ms. status m = in_progress)),
       hasRecentlyCompletedMatches = (hasRecentlyCompletedMatches f \<or>
          (\<exists>m\<in>set ms. status m = completed \<and>
              (\<exists>c. completedAt m = Some c \<and> c \<noteq> 0 \<and> now - c < 300000))),
       hasAnyPendingMatches = (hasAnyPendingMatches f \<or> (\<exists>m\<in>set ms. status m = pending)) \<rparr>"
proof (induction ms arbitrary: f)
  case Nil then show ?case by simp
next
  case (Cons m ms)
  have "fold (ttl_inspect now) (m # ms) f = fold (ttl_inspect now) ms (ttl_inspect now m f)"
    by simp
  also note Cons[of "ttl_inspect now m f"]
  finally show ?case
    by (subst (asm) (1 2 3) ttl_inspect_flags) auto
qed

lemma fold_events_ttl:
  "fold (\<lambda>event. fold (ttl_inspect now) (currentMatches event)) es f =
     fold (ttl_inspect now) (concat (map currentMatches es)) f"
  by (induction es arbitrary: f) auto

text \<open>
  What the function computes, on the numbers as they stand: the clock reading \<open>now\<close> is
  in milliseconds and is compared with \<open>completedAt\<close> as if that were in milliseconds
  too, against 300000.
\<close>

lemma calculateDynamicTTL_table:
  "calculateDynamicTTL now t =
     (if \<exists>m\<in>set (current_of t). status m = in_progress then 15
      else if \<exists>m\<in>set (current_of t). status m = completed \<and>
              (\<exists>c. completedAt m = Some c \<and> c \<noteq> 0 \<and> now - c < 300000) then 120
      else if \<exists>m\<in>set (current_of t). status m = pending then 600
      else 1800)"
  unfolding calculateDynamicTTL_def fold_events_ttl fold_ttl_inspect current_of_def Let_def
  by (simp only: ttl_flags.simps simp_thms)

text \<open>
  Claim C2. The claim's second row gives 120 when a match is completed and was completed
  less than 300 seconds before now. The timestamps of a match are Unix timestamps, in
  seconds; the clock reading is in milliseconds, and the function subtracts one from the
  other without converting. For a tournament whose only current match was completed
  100 seconds before the clock reading 1700000000000 ms (at the Unix timestamp
  1699999900), the function returns 1800, where the claim's table gives 120.
\<close>

theorem C2_ttl_recent_match_units:
  "calculateDynamicTTL 1700000000000 recent_tournament = 1800
   \<and> status completed_match = completed
   \<and> completedAt completed_match = Some 1699999900
   \<and> 1700000000000 div 1000 - 1699999900 = (100 :: int)"
  by (simp add: calculateDynamicTTL_def recent_tournament_def completed_match_def ttl_inspect_def)

section \<open>Properties of the request with retry\<close>






section \<open>Properties of the page loop\<close>

lemma loop_stop: "\<not> hasMorePages s \<Longrightarrow> setPagesLoop up pg s = s"
  by (subst setPagesLoop.simps) simp

lemma loop_over: "10 < page s \<Longrightarrow> setPagesLoop up pg s = s"
  by (subst setPagesLoop.simps) simp

lemma loadPhaseGroupSets_requests:
  "snd (loadPhaseGroupSets up i p reqs) = reqs @ [PhaseGroupSetsQuery i p]"
  by (simp add: loadPhaseGroupSets_def split: sum.splits option.splits)

lemma loadPhaseGroupSets_data:
  "fst (loadPhaseGroupSets up i p reqs) = fst (loadPhaseGroupSets up i p reqs')"
  by (simp add: loadPhaseGroupSets_def split: sum.splits option.splits)

lemma loop_short:
  assumes "hasMorePages s" "page s \<le> 10"
    "length (fst (loadPhaseGroupSets up (pg_id pg) (page s) [])) < 30"
  shows "requests (setPagesLoop up pg s) = requests s @ [pageQ pg (page s)]"
proof -
  obtain sd reqs where l: "loadPhaseGroupSets up (pg_id pg) (page s) (requests s) = (sd, reqs)"
    by (cases "loadPhaseGroupSets up (pg_id pg) (page s) (requests s)")
  have r: "reqs = requests s @ [pageQ pg (page s)]"
    using loadPhaseGroupSets_requests[of up "pg_id pg" "page s" "requests s"] l
    by (simp add: pageQ_def)
  have "length sd < 30"
    using assms(3) loadPhaseGroupSets_data[of up "pg_id pg" "page s" "requests s" "[]"] l by simp
  then show ?thesis
    using assms(1,2)
    by (subst setPagesLoop.simps) (simp add: l r Let_def loop_stop add_page_control)
qed

lemma loop_full:
  assumes "hasMorePages s" "page s \<le> 10"
    "\<not> length (fst (loadPhaseGroupSets up (pg_id pg) (page s) [])) < 30"
  shows "\<exists>s'. setPagesLoop up pg s = setPagesLoop up pg s'
     \<and> hasMorePages s' \<and> page s' = page s + 1 \<and> requests s' = requests s @ [pageQ pg (page s)]"
proof -
  obtain sd reqs where l: "loadPhaseGroupSets up (pg_id pg) (page s) (requests s) = (sd, reqs)"
    by (cases "loadPhaseGroupSets up (pg_id pg) (page s) (requests s)")
  have r: "reqs = requests s @ [pageQ pg (page s)]"
    using loadPhaseGroupSets_requests[of up "pg_id pg" "page s" "requests s"] l
    by (simp add: pageQ_def)
  have n: "\<not> length sd < 30"
    using assms(3) loadPhaseGroupSets_data[of up "pg_id pg" "page s" "requests s" "[]"] l by simp
  let ?s2 = "add_page up pg sd (s\<lparr> requests := reqs \<rparr>)"
  have ne: "sd \<noteq> []" using n by auto
  have "setPagesLoop up pg s = setPagesLoop up pg (?s2\<lparr> page := page ?s2 + 1 \<rparr>)"
    using assms(1,2) n ne
    by (subst setPagesLoop.simps) (simp add: l Let_def)
  moreover have "hasMorePages (?s2\<lparr> page := page ?s2 + 1 \<rparr>)"
    "page (?s2\<lparr> page := page ?s2 + 1 \<rparr>) = page s + 1"
    "requests (?s2\<lparr> page := page ?s2 + 1 \<rparr>) = requests s @ [pageQ pg (page s)]"
    using assms(1) by (simp_all add: add_page_control r)
  ultimately show ?thesis by blast
qed

lemma loop_requests_bounded:
  "hasMorePages s \<Longrightarrow> 1 \<le> page s \<Longrightarrow> page s \<le> 10 \<Longrightarrow>
     \<exists>n. page s \<le> n \<and> n \<le> 10 \<and>
       requests (setPagesLoop up pg s) = requests s @ map (pageQ pg) [page s..<Suc n]"
proof (induction "10 - page s" arbitrary: s)
  case 0
  then have p: "page s = 10" by simp
  show ?case
  proof (cases "length (fst (loadPhaseGroupSets up (pg_id pg) (page s) [])) < 30")
    case True
    from loop_short[OF "0.prems"(1,3) True] show ?thesis
      by (intro exI[of _ "page s"]) (simp add: p)
  next
    case False
    from loop_full[OF "0.prems"(1,3) False] obtain s' where
      s': "setPagesLoop up pg s = setPagesLoop up pg s'" "page s' = page s + 1"
      "requests s' = requests s @ [pageQ pg (page s)]" by blast
    then have "setPagesLoop up pg s' = s'" using p by (simp add: loop_over)
    with s' show ?thesis
      by (intro exI[of _ "page s"]) (simp add: p)
  qed
next
  case (Suc d)
  show ?case
  proof (cases "length (fst (loadPhaseGroupSets up (pg_id pg) (page s) [])) < 30")
    case True
    from loop_short[OF Suc.prems(1,3) True] show ?thesis
      by (intro exI[of _ "page s"]) (use Suc.prems in simp)
  next
    case False
    from loop_full[OF Suc.prems(1,3) False] obtain s' where
      s': "setPagesLoop up pg s = setPagesLoop up pg s'" "hasMorePages s'" "page s' = page s + 1"
      "requests s' = requests s @ [pageQ pg (page s)]" by blast
    have "d = 10 - page s'" "1 \<le> page s'" "page s' \<le> 10"
      using Suc.hyps(2) s'(3) by auto
    from Suc.hyps(1)[OF this(1) s'(2) this(2,3)] obtain n where
      n: "page s' \<le> n" "n \<le> 10"
      "requests (setPagesLoop up pg s') = requests s' @ map (pageQ pg) [page s'..<Suc n]" by blast
    have "[page s..<Suc n] = page s # [page s'..<Suc n]"
      using n(1) s'(3) by (simp add: upt_conv_Cons)
    with n s' show ?thesis
      by (intro exI[of _ n]) simp
  qed
qed

lemma page_length:
  assumes "serves_in_pages up (pg_id pg) sets" "1 \<le> p"
  shows "length (fst (loadPhaseGroupSets up (pg_id pg) p [])) = min 30 (length sets - 30 * (p - 1))"
  using assms by (simp add: serves_in_pages_def loadPhaseGroupSets_def)

lemma loop_requests_paged:
  assumes sv: "serves_in_pages up (pg_id pg) sets"
  shows "hasMorePages s \<Longrightarrow> 1 \<le> page s \<Longrightarrow> page s \<le> 10 \<Longrightarrow> page s - 1 \<le> length sets div 30 \<Longrightarrow>
     requests (setPagesLoop up pg s) =
       requests s @ map (pageQ pg) [page s..<Suc (min (length sets div 30 + 1) 10)]"
proof (induction "10 - page s" arbitrary: s)
  case 0
  then have p: "page s = 10" by simp
  then have m: "min (length sets div 30 + 1) 10 = 10" using "0.prems"(4) by simp
  show ?case
  proof (cases "length (fst (loadPhaseGroupSets up (pg_id pg) (page s) [])) < 30")
    case True
    from loop_short[OF "0.prems"(1,3) True] show ?thesis
      unfolding m by (simp add: p)
  next
    case False
    from loop_full[OF "0.prems"(1,3) False] obtain s' where
      s': "setPagesLoop up pg s = setPagesLoop up pg s'" "page s' = page s + 1"
      "requests s' = requests s @ [pageQ pg (page s)]" by blast
    then have "setPagesLoop up pg s' = s'" using p by (simp add: loop_over)
    with s' show ?thesis
      unfolding m by (simp add: p)
  qed
next
  case (Suc d)
  have len: "length (fst (loadPhaseGroupSets up (pg_id pg) (page s) []))
      = min 30 (length sets - 30 * (page s - 1))"
    by (rule page_length[OF sv Suc.prems(2)])
  show ?case
  proof (cases "length (fst (loadPhaseGroupSets up (pg_id pg) (page s) [])) < 30")
    case True
    then have "length sets - 30 * (page s - 1) < 30" using len by simp
    then have "length sets div 30 \<le> page s - 1" by arith
    with Suc.prems(4) have e: "length sets div 30 + 1 = page s" using Suc.prems(2) by simp
    have m: "min (length sets div 30 + 1) 10 = page s" using e Suc.prems(3) by simp
    from loop_short[OF Suc.prems(1,3) True] show ?thesis
      unfolding m by simp
  next
    case False
    then have "30 \<le> length sets - 30 * (page s - 1)" using len by simp
    then have ge: "page s \<le> length sets div 30" using Suc.prems(2) by arith
    from loop_full[OF Suc.prems(1,3) False] obtain s' where
      s': "setPagesLoop up pg s = setPagesLoop up pg s'" "hasMorePages s'" "page s' = page s + 1"
      "requests s' = requests s @ [pageQ pg (page s)]" by blast
    have c: "d = 10 - page s'" "1 \<le> page s'" "page s' \<le> 10" "page s' - 1 \<le> length sets div 30"
      using Suc.hyps(2) s'(3) ge by auto
    note ih = Suc.hyps(1)[OF c(1) s'(2) c(2,3,4)]
    have lt: "page s < Suc (min (length sets div 30 + 1) 10)"
      using c(3) ge s'(3) by arith
    have "[page s..<Suc (min (length sets div 30 + 1) 10)]
        = page s # [page s'..<Suc (min (length sets div 30 + 1) 10)]"
      unfolding s'(3) using upt_conv_Cons[OF lt] by simp
    with ih s' show ?thesis by simp
  qed
qed

text \<open>
  Claim C8, as amended. The page loop of a phase group always ends (the function is
  total), and from page 1 it requests the pages \<open>1, 2, ..., n\<close> in order, for some
  \<open>n\<close> between 1 and 10: never more than 10 pages. When the first page returns fewer
  than 30 sets, it requests page 1 only. When the upstream serves \<open>k * 30 + r\<close> sets
  with \<open>0 < r < 30\<close> in pages of 30, it requests exactly \<open>min (k + 1) 10\<close> pages:
  \<open>k + 1\<close> pages when \<open>k \<le> 9\<close>, and 10 pages, by the loop's ceiling, when \<open>k \<ge> 10\<close>.
\<close>

theorem C8_pagination:
  assumes "hasMorePages s" "page s = 1"
  shows "(\<exists>n. 1 \<le> n \<and> n \<le> 10 \<and>
            requests (setPagesLoop up pg s) = requests s @ map (pageQ pg) [1..<Suc n])
    \<and> (length (fst (loadPhaseGroupSets up (pg_id pg) 1 [])) < 30 \<longrightarrow>
          requests (setPagesLoop up pg s) = requests s @ [pageQ pg 1])
    \<and> (serves_in_pages up (pg_id pg) sets \<and> length sets = k * 30 + r \<and> 0 < r \<and> r < 30 \<longrightarrow>
          requests (setPagesLoop up pg s) =
            requests s @ map (pageQ pg) [1..<Suc (min (k + 1) 10)])"
proof (intro conjI impI)
  show "\<exists>n. 1 \<le> n \<and> n \<le> 10 \<and>
            requests (setPagesLoop up pg s) = requests s @ map (pageQ pg) [1..<Suc n]"
    using loop_requests_bounded[of s up pg] assms by simp
next
  assume "length (fst (loadPhaseGroupSets up (pg_id pg) 1 [])) < 30"
  then show "requests (setPagesLoop up pg s) = requests s @ [pageQ pg 1]"
    using loop_short[of s up pg] assms by simp
next
  assume a: "serves_in_pages up (pg_id pg) sets \<and> length sets = k * 30 + r \<and> 0 < r \<and> r < 30"
  then have d: "length sets div 30 = k" by simp
  from a have sv: "serves_in_pages up (pg_id pg) sets" by simp
  show "requests (setPagesLoop up pg s) =
            requests s @ map (pageQ pg) [1..<Suc (min (k + 1) 10)]"
    using loop_requests_paged[OF sv, of s] assms by (simp add: d)
qed

lemma serves_in_pages_paged: "serves_in_pages (paged_upstream sets) pgid sets"
  by (simp add: serves_in_pages_def paged_upstream_def)

theorem C8_pagination_witness:
  "hasMorePages (first_page []) \<and> page (first_page []) = 1
   \<and> serves_in_pages (paged_upstream (replicate 31 plain_set)) (pg_id pool) (replicate 31 plain_set)
   \<and> length (replicate 31 plain_set) = 1 * 30 + 1 \<and> (0::nat) < 1 \<and> (1::nat) < 30
   \<and> requests (setPagesLoop (paged_upstream (replicate 31 plain_set)) pool (first_page []))
        = [PhaseGroupSetsQuery 1 1, PhaseGroupSetsQuery 1 2]
   \<and> length (fst (loadPhaseGroupSets (paged_upstream (replicate 5 plain_set)) (pg_id pool) 1 [])) < 30
   \<and> requests (setPagesLoop (paged_upstream (replicate 5 plain_set)) pool (first_page []))
        = [PhaseGroupSetsQuery 1 1]"
proof -
  have h: "hasMorePages (first_page [])" "page (first_page []) = 1"
    by (simp_all add: first_page_def)
  have u: "[1..<3] = [1, 2::nat]" "[1..<2] = [1::nat]"
    by (simp_all add: upt_rec)
  have short: "length (fst (loadPhaseGroupSets (paged_upstream (replicate 5 plain_set)) (pg_id pool) 1 [])) < 30"
    by (simp add: loadPhaseGroupSets_def paged_upstream_def)
  have a: "requests (setPagesLoop (paged_upstream (replicate 31 plain_set)) pool (first_page []))
        = [PhaseGroupSetsQuery 1 1, PhaseGroupSetsQuery 1 2]"
    using C8_pagination[OF h, of "paged_upstream (replicate 31 plain_set)" pool
            "replicate 31 plain_set" 1 1]
          serves_in_pages_paged[of "replicate 31 plain_set" "pg_id pool"]
    by (simp add: first_page_def pageQ_def pool_def u)
  have b: "requests (setPagesLoop (paged_upstream (replicate 5 plain_set)) pool (first_page []))
        = [PhaseGroupSetsQuery 1 1]"
    using C8_pagination[OF h, of "paged_upstream (replicate 5 plain_set)" pool
            "replicate 5 plain_set" 0 5] short
    by (simp add: first_page_def pageQ_def pool_def)
  show ?thesis
    using h a b short serves_in_pages_paged[of "replicate 31 plain_set" "pg_id pool"]
    by simp
qed

text \<open>
  The claim as stated fails for \<open>k = 10\<close>, \<open>r = 1\<close>: a phase group of 301 sets is fetched
  in 10 page requests, not in 11.
\<close>

theorem C8_pagination_counterexample:
  "serves_in_pages (paged_upstream (replicate 301 plain_set)) (pg_id pool) (replicate 301 plain_set)
   \<and> length (replicate 301 plain_set) = 10 * 30 + 1
   \<and> length (requests (setPagesLoop (paged_upstream (replicate 301 plain_set)) pool (first_page [])))
        = 10
   \<and> (10::nat) \<noteq> 10 + 1"
proof -
  have h: "hasMorePages (first_page [])" "1 \<le> page (first_page [])" "page (first_page []) \<le> 10"
    "page (first_page []) - 1 \<le> length (replicate 301 plain_set) div 30"
    by (simp_all add: first_page_def)
  have "requests (setPagesLoop (paged_upstream (replicate 301 plain_set)) pool (first_page []))
      = requests (first_page []) @ map (pageQ pool)
          [page (first_page [])..<Suc (min (length (replicate 301 plain_set) div 30 + 1) 10)]"
    by (rule loop_requests_paged[OF serves_in_pages_paged h])
  then have "length (requests (setPagesLoop (paged_upstream (replicate 301 plain_set)) pool
      (first_page []))) = 10"
    by (simp add: first_page_def)
  then show ?thesis
    using serves_in_pages_paged[of "replicate 301 plain_set" "pg_id pool"] by simp
qed

section \<open>Properties of the tournament assembly\<close>

text \<open>
  \<^verbatim>\<open>loadEventDetails\<close> itself never adds a player with the tag \<open>Unknown Player\<close> and
  never adds an id twice: the event it returns has grown from the event it was given.
\<close>

lemma map_set_keys:
  "map fst (map_set k v kvs) = (if k \<in> set (map fst kvs) then map fst kvs else map fst kvs @ [k])"
proof (induction kvs)
  case Nil then show ?case by simp
next
  case (Cons kv kvs)
  obtain k' v' where kv: "kv = (k', v')" by (cases kv)
  show ?case using Cons by (cases "k = k'") (simp_all add: kv)
qed

lemma map_set_subset: "set (map_set k v kvs) \<subseteq> insert (k, v) (set kvs)"
proof (induction kvs)
  case Nil then show ?case by simp
next
  case (Cons kv kvs)
  obtain k' v' where kv: "kv = (k', v')" by (cases kv)
  show ?case using Cons by (cases "k = k'") (auto simp: kv)
qed

lemma known_players_map_set:
  assumes "known_players kvs" "p_tag p \<noteq> ''Unknown Player''"
  shows "known_players (map_set (p_id p) p kvs)"
  using assms map_set_subset[of "p_id p" p kvs]
  unfolding known_players_def map_set_keys
  by (auto simp: image_iff)

lemma add_slot_player_known:
  "known_players (bracketPlayers s) \<Longrightarrow> known_players (bracketPlayers (add_slot_player rnd slot s))"
  by (auto simp: add_slot_player_def Let_def known_players_map_set split: option.splits)

lemma add_set_players_known:
  "known_players (bracketPlayers s) \<Longrightarrow> known_players (bracketPlayers (add_set_players rnd rs s))"
proof -
  have "known_players (bracketPlayers s) \<Longrightarrow> known_players (bracketPlayers (fold (add_slot_player rnd) sl s))" for sl s
    by (induction sl arbitrary: s) (simp_all add: add_slot_player_known)
  then show "known_players (bracketPlayers s) \<Longrightarrow> ?thesis"
    by (simp add: add_set_players_def split: option.splits)
qed

lemma add_page_known:
  assumes "known_players (bracketPlayers s)"
  shows "known_players (bracketPlayers (add_page up pg setsData s))"
proof -
  have "known_players (bracketPlayers s) \<Longrightarrow> known_players (bracketPlayers (fold (add_set_players rnd) sd s))" for sd s rnd
    by (induction sd arbitrary: s) (simp_all add: add_set_players_known)
  from this[of "s\<lparr> bracketMatches := _, allMatches := _ \<rparr>"] assms show ?thesis
    by (simp add: add_page_def Let_def)
qed

lemma setPagesLoop_known:
  "known_players (bracketPlayers s) \<Longrightarrow> known_players (bracketPlayers (setPagesLoop up pg s))"
proof (induction up pg s rule: setPagesLoop.induct)
  case (1 up pg s)
  show ?case
  proof (cases "hasMorePages s \<and> page s \<le> 10")
    case False
    then have "setPagesLoop up pg s = s"
      using loop_stop[of s up pg] loop_over[of s up pg] by (cases "hasMorePages s") auto
    then show ?thesis using "1.prems" by simp
  next
    case True
    obtain sd reqs where l: "loadPhaseGroupSets up (pg_id pg) (page s) (requests s) = (sd, reqs)"
      by (cases "loadPhaseGroupSets up (pg_id pg) (page s) (requests s)")
    let ?s1 = "s\<lparr> requests := reqs \<rparr>"
    let ?s2 = "add_page up pg sd ?s1"
    have k1: "known_players (bracketPlayers ?s1)" using "1.prems" by simp
    have k2: "known_players (bracketPlayers ?s2)" by (rule add_page_known[OF k1])
    show ?thesis
    proof (cases "0 < length sd")
      case False
      with True l k1 "1.IH"(3)[OF True refl l[symmetric] refl] show ?thesis
        by (subst setPagesLoop.simps) (simp add: l)
    next
      case pos: True
      show ?thesis
      proof (cases "length sd < 30")
        case short: True
        from "1.IH"(1)[OF True refl l[symmetric] refl pos refl short] k2 True l pos short show ?thesis
          by (subst setPagesLoop.simps) (simp add: l Let_def)
      next
        case full: False
        from "1.IH"(2)[OF True refl l[symmetric] refl pos refl full] k2 True l pos full show ?thesis
          by (subst setPagesLoop.simps) (simp add: l Let_def)
      qed
    qed
  qed
qed

lemma grown_from_refl: "grown_from ev ev"
  by (simp add: grown_from_def)

lemma grown_from_trans: "grown_from a b \<Longrightarrow> grown_from b c \<Longrightarrow> grown_from a c"
  by (auto simp: grown_from_def)

lemma known_players_ids:
  "known_players kvs \<Longrightarrow> map p_id (map snd kvs) = map fst kvs"
  by (induction kvs) (auto simp: known_players_def)

lemma finish_bracket_grown:
  assumes "known_players (bracketPlayers s)"
  shows "grown_from ev (finish_bracket pg s ev)"
proof -
  let ?new = "filter (\<lambda>p. p_id p \<notin> set (map p_id (participants ev))) (map_values (bracketPlayers s))"
  have p: "participants (finish_bracket pg s ev) = participants ev @ ?new"
    by (simp add: finish_bracket_def Let_def)
  have "distinct (map fst (bracketPlayers s))"
    using assms by (simp add: known_players_def)
  then have d: "distinct (map p_id (map_values (bracketPlayers s)))"
    unfolding map_values_def known_players_ids[OF assms] .
  have dn: "distinct (map p_id ?new)"
    using d by (rule distinct_map_filter)
  have t: "\<forall>q\<in>set ?new. p_tag q \<noteq> ''Unknown Player''"
    using assms by (auto simp: known_players_def map_values_def)
  have disj: "set (map p_id (participants ev)) \<inter> set (map p_id ?new) = {}"
    by (auto simp: image_iff)
  show ?thesis
    unfolding grown_from_def p using dn t disj by auto
qed

lemma phaseGroupsLoop_grown:
  "grown_from ev (fst (phaseGroupsLoop up pgs (ev, s)))"
proof (induction pgs arbitrary: ev s)
  case Nil then show ?case by (simp add: grown_from_refl)
next
  case (Cons pg pgs)
  let ?s0 = "s\<lparr> page := 1, hasMorePages := True, bracketMatches := [], bracketPlayers := [] \<rparr>"
  let ?s' = "setPagesLoop up pg ?s0"
  have "known_players (bracketPlayers ?s0)" by (simp add: known_players_def)
  then have "known_players (bracketPlayers ?s')" by (rule setPagesLoop_known)
  then have g: "grown_from ev (finish_bracket pg ?s' ev)" by (rule finish_bracket_grown)
  show ?case
    using grown_from_trans[OF g Cons[of "finish_bracket pg ?s' ev" ?s']]
    by (simp add: Let_def)
qed

lemma loadEventDetails_grown:
  "fst (loadEventDetails up ev sl reqs) = Inr ev' \<Longrightarrow> grown_from ev ev'"
proof -
  have b: "grown_from ev (ev\<lparr> brackets := bs, currentMatches := [] \<rparr>)" for bs
    by (simp add: grown_from_def)
  have c: "grown_from e (e\<lparr> currentMatches := cm \<rparr>)" for e cm
    by (simp add: grown_from_def)
  assume "fst (loadEventDetails up ev sl reqs) = Inr ev'"
  then show ?thesis
    by (auto simp: loadEventDetails_def Let_def case_prod_beta grown_from_refl
          split: sum.splits option.splits list.splits
          intro!: grown_from_trans[OF b grown_from_trans[OF phaseGroupsLoop_grown c]])
qed

text \<open>
  Claim C9. The claim says that no participants list holds a player with the tag
  \<open>Unknown Player\<close>. The page loop of \<^verbatim>\<open>loadEventDetails\<close> drops such players, but
  \<^verbatim>\<open>transformBasicEventData\<close> keeps every entrant of the sample that has an id: for an
  entrant with an id and neither a name nor a gamer tag, the tournament returned holds
  the participant with the tag \<open>Unknown Player\<close>.
\<close>

theorem C9_unknown_player_in_participants:
  "\<exists>t. fst (getTournamentBySlug nameless_upstream ''demo'' []) = Inr t
     \<and> map participants (events t)
         = [[\<lparr> p_id = ''7'', p_tag = ''Unknown Player'', p_name = None, p_startggId = None \<rparr>]]"
  by (simp add: getTournamentBySlug_def nameless_upstream_def nameless_entrant_def
        transformBasicTournamentData_def transformBasicEventData_def transformPlayerData_def
        truthy_num_def or_str_def loadEventDetails_def Let_def string_of_nat.simps
        remove_duplicates_def)

section \<open>Properties of the router\<close>

lemmas router_eval =
  run_def advance_def step_def two_readers_def one_reader_def read_demo_def
  getTournamentBySlug_def demo_upstream_def missing_upstream_def transformBasicTournamentData_def
  calculateDynamicTTL_def getMatchStateMetadata_def cacheKey_def mem_get_def mem_set_def
  fetches_def in_flight_def isTQ_def or_str_def string_of_nat.simps Let_def message_def
  demo_tournament_def no_metadata_def fetching_demo_def storing_demo_def redis_down_server_def
  response_of_def redis_set_def redis_guard_def

lemma factory_built_cases:
  "factory_built c \<longleftrightarrow> (\<exists>m. c = InMemory m) \<or> (\<exists>r m. c = Fallback [Redis r, InMemory m])"
  by (induction c rule: factory_built.induct) auto

lemma factory_built_set:
  assumes "factory_built c"
  shows "fst (cache_set c key val ttlSeconds now) = Inr ()
     \<and> factory_built (snd (cache_set c key val ttlSeconds now))"
  using assms unfolding factory_built_cases
  by (auto split: prod.splits sum.splits)

lemma factory_built_get:
  assumes "factory_built c"
  shows "\<not> isl (fst (cache_get c key now)) \<and> factory_built (snd (cache_get c key now))"
  using assms unfolding factory_built_cases
  by (auto split: prod.splits sum.splits option.splits)

lemma factory_built_getMetadata:
  assumes "factory_built c"
  shows "\<not> isl (fst (cache_getMetadata c key now)) \<and> factory_built (snd (cache_getMetadata c key now))"
  using assms unfolding factory_built_cases
  by (auto split: prod.splits sum.splits option.splits)

lemma factory_built_create: "factory_built (createCacheService redisUrl)"
  by (simp add: createCacheService_def split: option.splits)

lemma step_factory_built:
  assumes "factory_built (cacheService sv)"
  shows "factory_built (cacheService (snd (step up now r sv)))"
  using assms
  by (cases "stage r")
     (auto simp: step_def case_prod_beta factory_built_set[OF assms] factory_built_get[OF assms]
        factory_built_getMetadata[OF assms] split: sum.splits option.splits)

lemma not_isl_Inr: "\<not> isl x \<Longrightarrow> \<exists>y. x = Inr y"
  by (cases x) auto

text \<open>
  Claim C3. The router's cache service is the one the factory built: the in-memory
  service, or the composite \<open>[Redis, InMemory]\<close>. With it, once the upstream fetch of a
  request has succeeded with the tournament \<open>t\<close>, the request goes on to the cache write
  (which leaves the cache as it is until then), and after the write it answers 200 with
  \<open>t\<close> and \<open>cached = false\<close>, whatever the state of the backends: a fault of the Redis
  write is caught inside the composite and never reaches the handler. No fault of the
  cache layer is surfaced at all: a turn of the handler ends in a 500 answer only when
  the upstream fetch itself failed, and the answer then carries that error's message.
\<close>

theorem C3_cache_write_fault_recovered:
  assumes "factory_built (cacheService sv)"
  shows "(stage r = Fetching \<and> fst (getTournamentBySlug up (slug r) (upstream_reqs sv)) = Inr t \<longrightarrow>
            stage (fst (step up now r sv)) =
              Storing t (calculateDynamicTTL now t) (getMatchStateMetadata now t)
          \<and> cacheService (snd (step up now r sv)) = cacheService sv)
     \<and> (stage r = Storing t ttl' md \<longrightarrow>
            stage (fst (step up now r sv)) =
              Done (Response200 \<lparr> resp_data = t, cached = False, cachedAt = Some now,
                                   ttl = Some ttl', match_state = md \<rparr>)
          \<and> factory_built (cacheService (snd (step up now r sv))))
     \<and> (stage r \<noteq> Done (Response500 msg) \<and> stage (fst (step up now r sv)) = Done (Response500 msg) \<longrightarrow>
            stage r = Fetching
          \<and> (\<exists>e. fst (getTournamentBySlug up (slug r) (upstream_reqs sv)) = Inl e \<and> msg = message e))"
proof (intro conjI impI)
  assume a: "stage r \<noteq> Done (Response500 msg) \<and> stage (fst (step up now r sv)) = Done (Response500 msg)"
  obtain y where g: "fst (cache_get (cacheService sv) (cacheKey (slug r)) now) = Inr y"
    using factory_built_get[OF assms, of "cacheKey (slug r)" now] not_isl_Inr by blast
  obtain z where m: "fst (cache_getMetadata (cacheService sv) (cacheKey (slug r)) now) = Inr z"
    using factory_built_getMetadata[OF assms, of "cacheKey (slug r)" now] not_isl_Inr by blast
  have s: "fst (cache_set (cacheService sv) (cacheKey (slug r)) t' l now) = Inr ()" for t' l
    using factory_built_set[OF assms] by simp
  show "stage r = Fetching"
    using a
    by (cases "stage r")
       (auto simp: step_def case_prod_beta g m s split: sum.splits option.splits if_splits)
  show "\<exists>e. fst (getTournamentBySlug up (slug r) (upstream_reqs sv)) = Inl e \<and> msg = message e"
    using a
    by (cases "stage r")
       (auto simp: step_def case_prod_beta g m s split: sum.splits option.splits if_splits)
qed (use factory_built_set[OF assms, of "cacheKey (slug r)" t ttl' now] in
      \<open>auto simp: step_def split: prod.splits sum.splits\<close>)

theorem C3_cache_write_fault_recovered_witness:
  "factory_built (cacheService redis_down_server)
   \<and> stage fetching_demo = Fetching
   \<and> fst (getTournamentBySlug demo_upstream (slug fetching_demo) (upstream_reqs redis_down_server))
       = Inr demo_tournament
   \<and> stage (fst (step demo_upstream 1000 fetching_demo redis_down_server))
       = Storing demo_tournament 1800 no_metadata
   \<and> stage storing_demo = Storing demo_tournament 1800 no_metadata
   \<and> fst (cache_set (Redis redis_down) (cacheKey ''demo'') demo_tournament 1800 1001)
       = Inl RedisNotConnected
   \<and> stage (fst (step demo_upstream 1001 storing_demo redis_down_server))
       = Done (Response200 \<lparr> resp_data = demo_tournament, cached = False, cachedAt = Some 1001,
                               ttl = Some 1800, match_state = no_metadata \<rparr>)
   \<and> stage (fst (step missing_upstream 1000 fetching_demo redis_down_server))
       = Done (Response500 (message (TournamentNotFound ''demo'')))
   \<and> fst (getTournamentBySlug missing_upstream (slug fetching_demo) (upstream_reqs redis_down_server))
       = Inl (TournamentNotFound ''demo'')"
proof -
  have f: "factory_built (cacheService redis_down_server)"
    by (simp add: redis_down_server_def)
  have g: "fst (getTournamentBySlug demo_upstream (slug fetching_demo) (upstream_reqs redis_down_server))
       = Inr demo_tournament"
    by (simp add: router_eval)
  have c: "calculateDynamicTTL 1000 demo_tournament = 1800"
    "getMatchStateMetadata 1000 demo_tournament = no_metadata"
    by (simp_all add: router_eval)
  have s1: "stage fetching_demo = Fetching"
    "stage storing_demo = Storing demo_tournament 1800 no_metadata"
    by (simp_all add: fetching_demo_def storing_demo_def)
  have r: "fst (cache_set (Redis redis_down) (cacheKey ''demo'') demo_tournament 1800 1001)
      = Inl RedisNotConnected"
    by (simp add: redis_down_def redis_set_def redis_guard_def)
  have n: "stage (fst (step missing_upstream 1000 fetching_demo redis_down_server))
       = Done (Response500 (message (TournamentNotFound ''demo'')))"
    by (simp add: step_def fetching_demo_def getTournamentBySlug_def missing_upstream_def)
  have n': "\<exists>e. fst (getTournamentBySlug missing_upstream (slug fetching_demo)
                    (upstream_reqs redis_down_server)) = Inl e
              \<and> message (TournamentNotFound ''demo'') = message e"
    using C3_cache_write_fault_recovered[OF f, of fetching_demo missing_upstream demo_tournament
            1000 1800 no_metadata "message (TournamentNotFound ''demo'')"] n s1
    by simp
  have n'': "fst (getTournamentBySlug missing_upstream (slug fetching_demo)
                    (upstream_reqs redis_down_server)) = Inl (TournamentNotFound ''demo'')"
    by (simp add: fetching_demo_def getTournamentBySlug_def missing_upstream_def)
  show ?thesis
    using C3_cache_write_fault_recovered[OF f, of fetching_demo demo_upstream demo_tournament 1000]
          C3_cache_write_fault_recovered[OF f, of storing_demo demo_upstream demo_tournament 1001
            1800 no_metadata]
          f g s1 r n n' n''
    by (simp add: c)
qed

text \<open>
  Claim C4, as amended. When the upstream reports that the tournament of the requested
  slug does not exist, the request whose fetch is in flight answers with status 500 and
  the message of the not-found error, and the cache is left as it was: nothing is
  written to it.
\<close>

theorem C4_not_found_is_500:
  assumes "stage r = Fetching" "tournamentQuery up (slug r) = Inr None"
  shows "stage (fst (step up now r sv)) = Done (Response500 (message (TournamentNotFound (slug r))))
     \<and> status_code (Response500 (message (TournamentNotFound (slug r)))) = 500
     \<and> cacheService (snd (step up now r sv)) = cacheService sv"
  using assms by (simp add: step_def getTournamentBySlug_def)

theorem C4_not_found_is_500_witness:
  "stage fetching_demo = Fetching
   \<and> tournamentQuery missing_upstream (slug fetching_demo) = Inr None
   \<and> stage (fst (step missing_upstream 1000 fetching_demo one_reader))
       = Done (Response500 (''Tournament with slug '' @ [CHR 0x22] @ ''demo'' @ [CHR 0x22]
            @ '' not found or tournament data is invalid''))
   \<and> cacheService (snd (step missing_upstream 1000 fetching_demo one_reader))
       = cacheService one_reader"
proof -
  have h: "stage fetching_demo = Fetching"
    "tournamentQuery missing_upstream (slug fetching_demo) = Inr None"
    by (simp_all add: fetching_demo_def missing_upstream_def)
  have m: "message (TournamentNotFound (slug fetching_demo))
      = ''Tournament with slug '' @ [CHR 0x22] @ ''demo'' @ [CHR 0x22]
            @ '' not found or tournament data is invalid''"
    by (simp add: message_def fetching_demo_def)
  show ?thesis
    using C4_not_found_is_500[OF h, of 1000 one_reader] h
    by (simp only: m simp_thms)
qed

text \<open>
  The claim as stated fails: a read of a slug the upstream does not know, on a cold
  in-memory cache, is answered with status 500, not 404.
\<close>

theorem C4_not_found_counterexample:
  "tournamentQuery missing_upstream ''demo'' = Inr None
   \<and> map (map_option status_code \<circ> response_of)
        (inbound (run missing_upstream [(0, 1000), (0, 1001)] one_reader)) = [Some 500]
   \<and> (500::nat) \<noteq> 404"
  by (simp add: router_eval)























lemma step_slug: "slug (fst (step up now r sv)) = slug r"
  by (cases "stage r")
     (auto simp: step_def case_prod_beta split: sum.splits option.splits)










end
